theory Spec2Isabelle
  imports Complex_Main "HOL-Library.Multiset"
begin

section \<open>Plain-text derivation: \<open>stripHtmlTags\<close>\<close>

text \<open>
  \<^verbatim>\<open>const stripHtmlTags = (html) => html.replace(/<[^>]*>/g, '');\<close>

  A string is a list of characters. The pattern \<^verbatim>\<open><[^>]*>\<close> is tried at a position as the
  regular-expression engine does: the character there must be \<^verbatim>\<open><\<close>; the greedy class
  \<^verbatim>\<open>[^>]*\<close> then takes every following character that is not \<^verbatim>\<open>>\<close>; the next character
  must be \<^verbatim>\<open>>\<close>. Giving characters back cannot help (the character after a shorter run is
  not \<^verbatim>\<open>>\<close> either), so the attempt fails exactly when the run reaches the end of the
  string. \<open>match_tag\<close> returns what follows the match.
\<close>

definition match_tag :: "string \<Rightarrow> string option" where
  "match_tag s =
     (case s of
        [] \<Rightarrow> None
      | c # cs \<Rightarrow>
          if c = CHR ''<'' then
            (case dropWhile (\<lambda>x. x \<noteq> CHR ''>'') cs of
               [] \<Rightarrow> None
             | g # rest \<Rightarrow> Some rest)
          else None)"

lemma match_tag_shorter: "match_tag s = Some rest \<Longrightarrow> length rest < length s"
proof -
  assume m: "match_tag s = Some rest"
  then obtain c cs where s: "s = c # cs"
    by (cases s) (simp_all add: match_tag_def)
  from m s obtain g where "dropWhile (\<lambda>x. x \<noteq> CHR ''>'') cs = g # rest"
    by (auto simp: match_tag_def split: if_splits list.splits)
  then have "Suc (length rest) \<le> length cs"
    using length_dropWhile_le [of "\<lambda>x. x \<noteq> CHR ''>''" cs] by simp
  with s show ?thesis by simp
qed

text \<open>
  The global replacement scans from the left: where the pattern matches, the match is
  dropped (replaced by the empty string) and the scan goes on after it; where it does not,
  the character is kept and the scan moves one position on. A match is never empty, so
  the scan always advances.
\<close>

function stripHtmlTags :: "string \<Rightarrow> string" where
  "stripHtmlTags [] = []"
| "stripHtmlTags (c # cs) =
     (case match_tag (c # cs) of
        Some rest \<Rightarrow> stripHtmlTags rest
      | None \<Rightarrow> c # stripHtmlTags cs)"
  by pat_completeness auto
termination
  by (relation "measure length") (auto dest: match_tag_shorter)


section \<open>The email gateway: data\<close>

text \<open>
  The fields of a message are JavaScript values. The documentation of \<^verbatim>\<open>sendEmail\<close> types
  them as strings; a caller may also leave a field out (\<^verbatim>\<open>undefined\<close>) or pass \<^verbatim>\<open>null\<close>.
  Of these values exactly \<^verbatim>\<open>undefined\<close>, \<^verbatim>\<open>null\<close> and the empty string are falsy.
\<close>

datatype jsval = JUndefined | JNull | JStr string

fun truthy :: "jsval \<Rightarrow> bool" where
  "truthy JUndefined = False"
| "truthy JNull = False"
| "truthy (JStr s) = (s \<noteq> [])"

text \<open>An \<^verbatim>\<open>Error\<close> object: its message, and the \<^verbatim>\<open>code\<close> property that the mail library sets
  on transport errors (\<^verbatim>\<open>undefined\<close> on a plain \<^verbatim>\<open>Error\<close>).\<close>

record js_error =
  message :: string
  code :: jsval

text \<open>The argument of \<^verbatim>\<open>sendEmail\<close> and of \<^verbatim>\<open>sendWorkshopConfirmation\<close>.\<close>

record email_message =
  msg_to :: jsval
  msg_subject :: jsval
  msg_html :: jsval
  msg_text :: jsval

record confirmation =
  email :: jsval
  name :: jsval
  subject :: jsval
  template :: jsval

text \<open>\<^verbatim>\<open>process.env\<close>: a variable is a string or is not set.\<close>

record env =
  EMAIL_USER :: "string option"
  EMAIL_PASSWORD :: "string option"
  EMAIL_HOST :: "string option"
  EMAIL_PORT :: "string option"
  EMAIL_SECURE :: "string option"

text \<open>
  The options object handed to \<^verbatim>\<open>nodemailer.createTransport\<close>. A key that the object does
  not have is \<open>None\<close>; \<open>port\<close> is a number, \<open>None\<close> standing for \<^verbatim>\<open>NaN\<close>. A transporter is
  the options it was built from together with its identity: the number of handles
  constructed before it.
\<close>

record transport_options =
  host :: string
  port :: "int option"
  secure :: bool
  auth_user :: "string option"
  auth_pass :: "string option"
  pool :: "bool option"
  maxConnections :: "nat option"
  maxMessages :: "nat option"
  connectionTimeout :: "nat option"
  socketTimeout :: "nat option"

record transporter =
  handle_id :: nat
  options :: transport_options

record test_account =
  user :: string
  pass :: string

record mail_options =
  mail_from :: string
  mail_to :: jsval
  mail_subject :: jsval
  mail_html :: jsval
  mail_text :: jsval
  priority :: string
  headers :: "(string \<times> string) list"

text \<open>
  What \<^verbatim>\<open>sendMail\<close> resolves to. The mail library fills \<^verbatim>\<open>messageId\<close> with the Message-ID it
  generated for the message (the message built by \<open>sendEmail\<close> sets none of its own).
\<close>

record send_info =
  messageId :: jsval

text \<open>
  What the function resolves to: \<^verbatim>\<open>{success: true, messageId}\<close>, or
  \<^verbatim>\<open>{success: false, error}\<close> with an optional \<^verbatim>\<open>code\<close> key (\<open>None\<close> when the object has no
  such key, as in the validation failures).
\<close>

datatype send_result = SendOk jsval | SendFail string "jsval option"

text \<open>
  A promise of the outside world never settles, or settles after some milliseconds, with
  a value or with an error.
\<close>

datatype 'a promise = Pending | Fulfilled nat 'a | Rejected nat js_error

text \<open>
  Everything one call takes from outside: the clock (\<^verbatim>\<open>Date.now()\<close>, in milliseconds), the
  outcome of \<^verbatim>\<open>nodemailer.createTestAccount()\<close>, the outcome of \<^verbatim>\<open>transporter.sendMail\<close>, and
  which of two promises that settle at the same instant settles first.
\<close>

record world =
  now :: int
  createTestAccount :: "test_account promise"
  sendMail :: "transporter \<Rightarrow> mail_options \<Rightarrow> send_info promise"
  timer_first_on_tie :: bool

text \<open>The effects of a call, in order: console output (its fixed text), requests to the
  test-account service, handle constructions, delivery attempts and timers.\<close>

datatype event =
    ConsoleWarn string
  | ConsoleError string
  | ConsoleLog string
  | CreateTestAccount
  | CreateTransport transport_options
  | SendMail transporter mail_options
  | SetTimeout nat

text \<open>
  The module's state: the two module-level variables, and with them the number of handles
  constructed so far and the effects so far.
\<close>

record gateway =
  cachedTransporter :: "transporter option"
  transporterCreatedAt :: int
  handles :: nat
  trace :: "event list"

definition initial :: gateway where
  "initial = \<lparr>cachedTransporter = None, transporterCreatedAt = 0, handles = 0, trace = []\<rparr>"

definition TRANSPORTER_TTL :: int where
  "TRANSPORTER_TTL = 30 * 60 * 1000"

definition EMAIL_TIMEOUT :: nat where
  "EMAIL_TIMEOUT = 30000"

definition emit :: "event \<Rightarrow> gateway \<Rightarrow> gateway" where
  "emit ev s = s\<lparr>trace := trace s @ [ev]\<rparr>"


text \<open>The effects added between a state and a later one.\<close>

definition new_events :: "gateway \<Rightarrow> gateway \<Rightarrow> event list" where
  "new_events s s' = drop (length (trace s)) (trace s')"

section \<open>The transport cache: \<open>createTransporter\<close>\<close>

text \<open>
  \<^verbatim>\<open>a || b\<close> on an environment variable: the variable when it is set and not empty,
  otherwise the default.
\<close>

definition or_default :: "string option \<Rightarrow> string \<Rightarrow> string" where
  "or_default v d = (case v of None \<Rightarrow> d | Some x \<Rightarrow> if x = [] then d else x)"

text \<open>
  \<^verbatim>\<open>parseInt(s, 10)\<close>: leading white space is skipped, then an optional sign, then the
  longest run of decimal digits is read; with no digit the result is \<^verbatim>\<open>NaN\<close>. The value is
  the integer itself (JavaScript rounds it to a double beyond \<open>2^53\<close>, far above any port
  number). White space is taken among the ASCII characters.
\<close>

definition is_space :: "char \<Rightarrow> bool" where
  "is_space c = (of_char c \<in> {9, 10, 11, 12, 13, 32 :: nat})"

definition is_digit :: "char \<Rightarrow> bool" where
  "is_digit c = (48 \<le> (of_char c :: nat) \<and> (of_char c :: nat) \<le> 57)"

fun digits_value :: "nat \<Rightarrow> string \<Rightarrow> nat" where
  "digits_value acc [] = acc"
| "digits_value acc (c # cs) = digits_value (10 * acc + (of_char c - 48)) cs"

definition parseInt :: "string \<Rightarrow> int option" where
  "parseInt str =
     (let s = dropWhile is_space str;
          neg = (s \<noteq> [] \<and> hd s = CHR ''-'');
          body = (if s \<noteq> [] \<and> (hd s = CHR ''-'' \<or> hd s = CHR ''+'') then tl s else s);
          ds = takeWhile is_digit body
      in if ds = [] then None
         else Some (if neg then - int (digits_value 0 ds) else int (digits_value 0 ds)))"

text \<open>
  The test of line 24:
  \<^verbatim>\<open>!user || !password || user === "YOUR_EMAIL_HERE" || password === "YOUR_APP_PASSWORD_HERE"\<close>.
\<close>

definition falsy_var :: "string option \<Rightarrow> bool" where
  "falsy_var v = (case v of None \<Rightarrow> True | Some x \<Rightarrow> x = [])"

definition credentials_unconfigured :: "env \<Rightarrow> bool" where
  "credentials_unconfigured e =
     (falsy_var (EMAIL_USER e) \<or> falsy_var (EMAIL_PASSWORD e)
      \<or> EMAIL_USER e = Some ''YOUR_EMAIL_HERE''
      \<or> EMAIL_PASSWORD e = Some ''YOUR_APP_PASSWORD_HERE'')"

definition test_options :: "test_account \<Rightarrow> transport_options" where
  "test_options testAccount =
     \<lparr>host = ''smtp.ethereal.email'', port = Some 587, secure = False,
      auth_user = Some (user testAccount), auth_pass = Some (pass testAccount),
      pool = None, maxConnections = None, maxMessages = None,
      connectionTimeout = None, socketTimeout = None\<rparr>"

definition production_options :: "env \<Rightarrow> transport_options" where
  "production_options e =
     \<lparr>host = or_default (EMAIL_HOST e) ''smtp.gmail.com'',
      port = parseInt (or_default (EMAIL_PORT e) ''587''),
      secure = (EMAIL_SECURE e = Some ''true''),
      auth_user = EMAIL_USER e, auth_pass = EMAIL_PASSWORD e,
      pool = Some True, maxConnections = Some 5, maxMessages = Some 100,
      connectionTimeout = Some 10000, socketTimeout = Some 20000\<rparr>"

text \<open>
  \<^verbatim>\<open>cachedTransporter = nodemailer.createTransport(opts); transporterCreatedAt = now;
  return cachedTransporter\<close>: a new handle is constructed, cached with the time read at
  the start of the call, and returned.
\<close>

definition install :: "transport_options \<Rightarrow> int \<Rightarrow> gateway \<Rightarrow> transporter \<times> gateway" where
  "install opts t s =
     (let h = \<lparr>handle_id = handles s, options = opts\<rparr>
      in (h, (emit (CreateTransport opts) s)
              \<lparr>cachedTransporter := Some h, handles := Suc (handles s),
               transporterCreatedAt := t\<rparr>))"

text \<open>The first test of \<^verbatim>\<open>createTransporter\<close>:
  \<^verbatim>\<open>cachedTransporter && now - transporterCreatedAt < TRANSPORTER_TTL\<close>.\<close>

definition cache_valid :: "world \<Rightarrow> gateway \<Rightarrow> bool" where
  "cache_valid w s =
     (cachedTransporter s \<noteq> None \<and> now w - transporterCreatedAt s < TRANSPORTER_TTL)"

text \<open>
  The result of an asynchronous function is \<open>None\<close> when its promise never settles,
  \<open>Some (Inl err)\<close> when it rejects (the function threw \<open>err\<close>) and \<open>Some (Inr v)\<close> when
  it resolves to \<open>v\<close>.
\<close>

definition createTransporter ::
  "env \<Rightarrow> world \<Rightarrow> gateway \<Rightarrow> (js_error + transporter) option \<times> gateway" where
  "createTransporter e w s =
     (if cache_valid w s then (map_option Inr (cachedTransporter s), s)
      else if credentials_unconfigured e then
        (let s1 = emit CreateTestAccount
                    (emit (ConsoleWarn
                      ''Email credentials not configured. Using ethereal.email for testing.'') s)
         in case createTestAccount w of
              Pending \<Rightarrow> (None, s1)
            | Rejected d err \<Rightarrow>
                (Some (Inl err), emit (ConsoleError ''Failed to create test email account:'') s1)
            | Fulfilled d testAccount \<Rightarrow>
                (case install (test_options testAccount) (now w) s1 of
                   (h, s2) \<Rightarrow> (Some (Inr h), s2)))
      else
        (case install (production_options e) (now w) s of
           (h, s1) \<Rightarrow> (Some (Inr h), s1)))"


section \<open>The message sender: \<open>sendEmail\<close>\<close>

text \<open>
  The template literal of \<^verbatim>\<open>from\<close> prints a variable that is not set as \<^verbatim>\<open>undefined\<close>.
\<close>

definition sender :: "env \<Rightarrow> string" where
  "sender e =
     [CHR 0x22] @ ''Websters - Shivaji College'' @ [CHR 0x22] @ '' <''
       @ (case EMAIL_USER e of None \<Rightarrow> ''undefined'' | Some u \<Rightarrow> u) @ ''>''"

text \<open>
  \<^verbatim>\<open>text || stripHtmlTags(html)\<close>: a truthy \<^verbatim>\<open>text\<close> is taken as it is and the right operand
  is not evaluated. Otherwise \<^verbatim>\<open>html.replace\<close> is called, which is a \<^verbatim>\<open>TypeError\<close> on
  \<^verbatim>\<open>undefined\<close> and \<^verbatim>\<open>null\<close>.
\<close>

definition plain_text :: "jsval \<Rightarrow> jsval \<Rightarrow> js_error + jsval" where
  "plain_text txt html =
     (if truthy txt then Inr txt
      else case html of
             JStr h \<Rightarrow> Inr (JStr (stripHtmlTags h))
           | JUndefined \<Rightarrow>
               Inl \<lparr>message = ''Cannot read properties of undefined (reading ''
                               @ [CHR 0x27] @ ''replace'' @ [CHR 0x27] @ '')'',
                     code = JUndefined\<rparr>
           | JNull \<Rightarrow>
               Inl \<lparr>message = ''Cannot read properties of null (reading ''
                               @ [CHR 0x27] @ ''replace'' @ [CHR 0x27] @ '')'',
                     code = JUndefined\<rparr>)"

definition mailOptions :: "env \<Rightarrow> email_message \<Rightarrow> js_error + mail_options" where
  "mailOptions e m =
     (case plain_text (msg_text m) (msg_html m) of
        Inl err \<Rightarrow> Inl err
      | Inr txt \<Rightarrow>
          Inr \<lparr>mail_from = sender e, mail_to = msg_to m, mail_subject = msg_subject m,
               mail_html = msg_html m, mail_text = txt, priority = ''high'',
               headers = [(''X-Priority'', ''1''), (''X-MSMail-Priority'', ''High''),
                          (''Importance'', ''high'')]\<rparr>)"

text \<open>
  \<^verbatim>\<open>await Promise.race([emailPromise, timeoutPromise])\<close>. Both promises are created in the
  same turn; the timer rejects \<open>EMAIL_TIMEOUT\<close> milliseconds later. The race takes the
  outcome of whichever settles first: \<open>Inr\<close> the value awaited, \<open>Inl\<close> the error thrown
  by \<^verbatim>\<open>await\<close>.
\<close>

definition timeout_error :: js_error where
  "timeout_error = \<lparr>message = ''Email sending timed out'', code = JUndefined\<rparr>"

definition delivery_first :: "bool \<Rightarrow> nat \<Rightarrow> bool" where
  "delivery_first tie d = (d < EMAIL_TIMEOUT \<or> (d = EMAIL_TIMEOUT \<and> \<not> tie))"

definition race :: "bool \<Rightarrow> 'a promise \<Rightarrow> js_error + 'a" where
  "race tie emailPromise =
     (case emailPromise of
        Pending \<Rightarrow> Inl timeout_error
      | Fulfilled d v \<Rightarrow> if delivery_first tie d then Inr v else Inl timeout_error
      | Rejected d err \<Rightarrow> if delivery_first tie d then Inl err else Inl timeout_error)"

text \<open>A delivery is late when it is still pending at the timeout or settles after it.\<close>

definition late :: "'a promise \<Rightarrow> bool" where
  "late p = (case p of Pending \<Rightarrow> True | Fulfilled d v \<Rightarrow> EMAIL_TIMEOUT < d
                     | Rejected d err \<Rightarrow> EMAIL_TIMEOUT < d)"

text \<open>The body of the \<^verbatim>\<open>try\<close> block (lines 93 to 119).\<close>

definition sendEmail_try ::
  "env \<Rightarrow> world \<Rightarrow> email_message \<Rightarrow> gateway \<Rightarrow> (js_error + send_result) option \<times> gateway" where
  "sendEmail_try e w m s =
     (case createTransporter e w s of
        (None, s1) \<Rightarrow> (None, s1)
      | (Some (Inl err), s1) \<Rightarrow> (Some (Inl err), s1)
      | (Some (Inr transporter), s1) \<Rightarrow>
          (case mailOptions e m of
             Inl err \<Rightarrow> (Some (Inl err), s1)
           | Inr opts \<Rightarrow>
               (let s2 = emit (SetTimeout EMAIL_TIMEOUT) (emit (SendMail transporter opts) s1)
                in case race (timer_first_on_tie w) (sendMail w transporter opts) of
                     Inl err \<Rightarrow> (Some (Inl err), s2)
                   | Inr info \<Rightarrow>
                       (Some (Inr (SendOk (messageId info))),
                        emit (ConsoleLog ''Email sent successfully:'') s2))))"

text \<open>The \<^verbatim>\<open>catch\<close> block (lines 120 to 128).\<close>

definition sendEmail_catch ::
  "js_error \<Rightarrow> gateway \<Rightarrow> (js_error + send_result) option \<times> gateway" where
  "sendEmail_catch err s =
     (Some (Inr (SendFail (message err) (Some (code err)))),
      emit (ConsoleError ''Error sending email:'') s)"

definition sendEmail ::
  "env \<Rightarrow> world \<Rightarrow> email_message \<Rightarrow> gateway \<Rightarrow> (js_error + send_result) option \<times> gateway" where
  "sendEmail e w m s =
     (if \<not> truthy (msg_to m) \<or> \<not> truthy (msg_subject m) \<or> \<not> truthy (msg_html m) then
        (Some (Inr (SendFail ''Missing required email parameters (to, subject, or html)'' None)),
         emit (ConsoleError ''Missing required email parameters'') s)
      else
        (case sendEmail_try e w m s of
           (Some (Inl err), s1) \<Rightarrow> sendEmail_catch err s1
         | r \<Rightarrow> r))"

section \<open>The workshop helper: \<open>sendWorkshopConfirmation\<close>\<close>

definition sendWorkshopConfirmation ::
  "env \<Rightarrow> world \<Rightarrow> confirmation \<Rightarrow> gateway \<Rightarrow> (js_error + send_result) option \<times> gateway" where
  "sendWorkshopConfirmation e w c s =
     (if \<not> truthy (email c) \<or> \<not> truthy (name c) \<or> \<not> truthy (subject c)
         \<or> \<not> truthy (template c) then
        (Some (Inr (SendFail ''Missing required parameters for workshop confirmation email''
                      None)), s)
      else
        sendEmail e w
          \<lparr>msg_to = email c, msg_subject = subject c, msg_html = template c,
           msg_text = JUndefined\<rparr> s)"

text \<open>Sequential calls of \<^verbatim>\<open>createTransporter\<close>, each with its own environment and world:
  the results in order, and the final state.\<close>

fun createTransporter_calls ::
  "(env \<times> world) list \<Rightarrow> gateway \<Rightarrow> (js_error + transporter) option list \<times> gateway" where
  "createTransporter_calls [] s = ([], s)"
| "createTransporter_calls ((e, w) # cs) s =
     (case createTransporter e w s of
        (r, s1) \<Rightarrow> (case createTransporter_calls cs s1 of (rs, s2) \<Rightarrow> (r # rs, s2)))"

section \<open>The logo carousel: \<open>shuffleArray\<close> and \<open>distributeLogos\<close>\<close>

text \<open>
  The functions work on JavaScript arrays, which are mutable objects: \<open>shuffleArray\<close>
  copies its argument and swaps elements of the copy in place, \<open>distributeLogos\<close> pushes
  onto the column arrays. Arrays therefore live in a store, addressed by references; an
  element is a value or \<^verbatim>\<open>undefined\<close> (\<open>None\<close>). \<open>next_ref\<close> is the first reference not yet
  allocated.
\<close>

record 'a store =
  cells :: "nat \<Rightarrow> 'a option list"
  next_ref :: nat

text \<open>A new array (\<^verbatim>\<open>[...array]\<close>, \<^verbatim>\<open>[]\<close>), \<^verbatim>\<open>col.push(x)\<close>, and the read \<^verbatim>\<open>xs[i]\<close>, which is
  \<^verbatim>\<open>undefined\<close> out of range.\<close>

definition alloc :: "'a option list \<Rightarrow> 'a store \<Rightarrow> nat \<times> 'a store" where
  "alloc xs st =
     (next_ref st, \<lparr>cells = (cells st)(next_ref st := xs), next_ref = Suc (next_ref st)\<rparr>)"

definition push :: "nat \<Rightarrow> 'a option \<Rightarrow> 'a store \<Rightarrow> 'a store" where
  "push r x st = st\<lparr>cells := (cells st)(r := cells st r @ [x])\<rparr>"

definition element :: "'a option list \<Rightarrow> nat \<Rightarrow> 'a option" where
  "element xs i = (if i < length xs then xs ! i else None)"

text \<open>
  \<^verbatim>\<open>Math.floor(Math.random() * n)\<close>. \<^verbatim>\<open>Math.random()\<close> returns a number that is at least 0
  and less than 1: the \<open>k\<close>-th call returns the fractional part of \<open>rng k\<close>, so every
  such number can occur and no other. The product is taken exactly; rounding it to a
  double can change which index is picked, never the range \<open>0 .. n - 1\<close> it lies in.
\<close>

definition pick :: "(nat \<Rightarrow> rat) \<Rightarrow> nat \<Rightarrow> nat \<Rightarrow> nat" where
  "pick rng k n = nat \<lfloor>frac (rng k) * of_nat n\<rfloor>"

text \<open>
  \<^verbatim>\<open>for (let i = shuffled.length - 1; i > 0; i--) { j = ...; [s[i], s[j]] = [s[j], s[i]] }\<close>.
  Both elements are read before either is written. Here \<open>j \<le> i < length\<close>, so the writes
  stay in range. \<open>k\<close> counts the calls of \<^verbatim>\<open>Math.random\<close> made so far.
\<close>

fun shuffle_loop :: "(nat \<Rightarrow> rat) \<Rightarrow> nat \<Rightarrow> nat \<Rightarrow> nat \<Rightarrow> 'a store \<Rightarrow> nat \<times> 'a store" where
  "shuffle_loop rng 0 k shuffled st = (k, st)"
| "shuffle_loop rng (Suc i) k shuffled st =
     (let j = pick rng k (Suc i + 1);
          xs = cells st shuffled;
          st' = st\<lparr>cells := (cells st)
                  (shuffled := xs[Suc i := element xs j, j := element xs (Suc i)])\<rparr>
      in shuffle_loop rng i (Suc k) shuffled st')"

definition shuffleArray :: "(nat \<Rightarrow> rat) \<Rightarrow> nat \<Rightarrow> nat \<Rightarrow> 'a store \<Rightarrow> nat \<times> nat \<times> 'a store" where
  "shuffleArray rng k array st =
     (case alloc (cells st array) st of
        (shuffled, st1) \<Rightarrow>
          (case shuffle_loop rng (length (cells st1 shuffled) - 1) k shuffled st1 of
             (k', st2) \<Rightarrow> (shuffled, k', st2)))"

text \<open>
  The exceptions \<open>distributeLogos\<close> can throw. \<^verbatim>\<open>columns[index % columnCount].push(logo)\<close>
  throws a \<^verbatim>\<open>TypeError\<close> when \<^verbatim>\<open>columnCount\<close> is 0: the index is \<^verbatim>\<open>NaN\<close> and \<^verbatim>\<open>columns[NaN]\<close>
  is \<^verbatim>\<open>undefined\<close>. The two \<^verbatim>\<open>RangeError\<close>s are described below.
\<close>

datatype js_exception = TypeError | RangeError

text \<open>
  \<^verbatim>\<open>Array.from({ length: columnCount }, () => [])\<close>. The array is created with the length
  asked for, and an array cannot be longer than \<open>2^32 - 1\<close>: beyond that \<^verbatim>\<open>Array.from\<close>
  throws a \<^verbatim>\<open>RangeError\<close> (invalid array length). Otherwise the result is the references of
  \<open>columnCount\<close> new empty arrays, made by \<open>new_arrays\<close>.
\<close>

fun new_arrays :: "nat \<Rightarrow> 'a store \<Rightarrow> nat list \<times> 'a store" where
  "new_arrays 0 st = ([], st)"
| "new_arrays (Suc n) st =
     (case alloc [] st of
        (c, st1) \<Rightarrow> (case new_arrays n st1 of (cs, st2) \<Rightarrow> (c # cs, st2)))"

definition alloc_columns :: "nat \<Rightarrow> 'a store \<Rightarrow> js_exception + (nat list \<times> 'a store)" where
  "alloc_columns columnCount st =
     (if 2 ^ 32 \<le> columnCount then Inl RangeError else Inr (new_arrays columnCount st))"

text \<open>
  \<^verbatim>\<open>Math.max(...lengths)\<close>. The spread passes every length as an argument of one call, and
  an engine accepts only so many arguments: \<open>max_arguments\<close>, a property of the engine and
  not of the language. With more, the call throws a \<^verbatim>\<open>RangeError\<close>. Otherwise the result is
  the fold of \<open>max\<close> over the lengths; for no length at all JavaScript gives \<^verbatim>\<open>-Infinity\<close>,
  and then there is no column to compare with it.
\<close>

definition Math_max :: "nat \<Rightarrow> nat list \<Rightarrow> js_exception + nat" where
  "Math_max max_arguments lengths =
     (if max_arguments < length lengths then Inl RangeError else Inr (fold max lengths 0))"

text \<open>\<^verbatim>\<open>shuffled.forEach((logo, index) => ...)\<close>: the indices below the length the array
  had at the start, in order; the first argument is the number of indices left.\<close>

fun distribute ::
  "nat \<Rightarrow> nat \<Rightarrow> nat \<Rightarrow> nat list \<Rightarrow> nat \<Rightarrow> 'a store \<Rightarrow> js_exception + 'a store" where
  "distribute 0 index shuffled columns columnCount st = Inr st"
| "distribute (Suc m) index shuffled columns columnCount st =
     (if columnCount = 0 then Inl TypeError
      else distribute m (Suc index) shuffled columns columnCount
             (push (columns ! (index mod columnCount))
                (element (cells st shuffled) index) st))"

text \<open>\<^verbatim>\<open>while (col.length < maxLength) col.push(shuffled[Math.floor(Math.random() *
  shuffled.length)])\<close> for one column, then for every column in order.\<close>

function pad_column ::
  "(nat \<Rightarrow> rat) \<Rightarrow> nat \<Rightarrow> nat \<Rightarrow> nat \<Rightarrow> nat \<Rightarrow> 'a store \<Rightarrow> nat \<times> 'a store" where
  "pad_column rng k shuffled maxLength col st =
     (if length (cells st col) < maxLength then
        pad_column rng (Suc k) shuffled maxLength col
          (push col (element (cells st shuffled)
                       (pick rng k (length (cells st shuffled)))) st)
      else (k, st))"
  by pat_completeness auto
termination
  by (relation "measure (\<lambda>(rng, k, shuffled, maxLength, col, st).
        maxLength - length (cells st col))") (auto simp: push_def)

fun pad_columns ::
  "(nat \<Rightarrow> rat) \<Rightarrow> nat \<Rightarrow> nat \<Rightarrow> nat \<Rightarrow> nat list \<Rightarrow> 'a store \<Rightarrow> nat \<times> 'a store" where
  "pad_columns rng k shuffled maxLength [] st = (k, st)"
| "pad_columns rng k shuffled maxLength (col # cols) st =
     (case pad_column rng k shuffled maxLength col st of
        (k', st') \<Rightarrow> pad_columns rng k' shuffled maxLength cols st')"

text \<open>
  The result is the list of the column references, with the number of random draws
  consumed and the store; or the exception thrown.
\<close>

definition distributeLogos ::
  "nat \<Rightarrow> (nat \<Rightarrow> rat) \<Rightarrow> nat \<Rightarrow> nat \<Rightarrow> nat \<Rightarrow> 'a store \<Rightarrow>
     js_exception + (nat list \<times> nat \<times> 'a store)" where
  "distributeLogos max_arguments rng k allLogos columnCount st =
     (case shuffleArray rng k allLogos st of
        (shuffled, k1, st1) \<Rightarrow>
          (case alloc_columns columnCount st1 of
             Inl err \<Rightarrow> Inl err
           | Inr (columns, st2) \<Rightarrow>
               (case distribute (length (cells st2 shuffled)) 0 shuffled columns columnCount st2 of
                  Inl err \<Rightarrow> Inl err
                | Inr st3 \<Rightarrow>
                    (case Math_max max_arguments
                            (map (\<lambda>col. length (cells st3 col)) columns) of
                       Inl err \<Rightarrow> Inl err
                     | Inr maxLength \<Rightarrow>
                         (case pad_columns rng k1 shuffled maxLength columns st3 of
                            (k2, st4) \<Rightarrow> Inr (columns, k2, st4))))))"

declare pad_column.simps [simp del]

text \<open>The contents of the columns of a result.\<close>

definition columns_of :: "js_exception + (nat list \<times> nat \<times> 'a store) \<Rightarrow> 'a option list list" where
  "columns_of r = (case r of Inl err \<Rightarrow> [] | Inr (cols, k, st) \<Rightarrow> map (cells st) cols)"

section \<open>Example inputs\<close>

text \<open>Concrete environments, worlds and messages at which the theorems below are
  instantiated.\<close>

definition demo_account :: test_account where
  "demo_account = \<lparr>user = ''demo@ethereal.email'', pass = ''secret''\<rparr>"

definition demo_env :: env where
  "demo_env = \<lparr>EMAIL_USER = Some ''club@example.org'', EMAIL_PASSWORD = Some ''app-password'',
     EMAIL_HOST = None, EMAIL_PORT = None, EMAIL_SECURE = None\<rparr>"

definition bare_env :: env where
  "bare_env = \<lparr>EMAIL_USER = None, EMAIL_PASSWORD = None,
     EMAIL_HOST = None, EMAIL_PORT = None, EMAIL_SECURE = None\<rparr>"

definition demo_world :: "int \<Rightarrow> test_account promise \<Rightarrow> send_info promise \<Rightarrow> world" where
  "demo_world t acct delivery =
     \<lparr>now = t, createTestAccount = acct, sendMail = (\<lambda>_ _. delivery),
      timer_first_on_tie = True\<rparr>"

definition demo_message :: email_message where
  "demo_message = \<lparr>msg_to = JStr ''student@example.org'', msg_subject = JStr ''Welcome'',
     msg_html = JStr ''<p>Hello <b>World</b></p>'', msg_text = JUndefined\<rparr>"

definition refused :: js_error where
  "refused = \<lparr>message = ''connect ECONNREFUSED'', code = JStr ''ECONNREFUSED''\<rparr>"

definition auth_failure :: js_error where
  "auth_failure = \<lparr>message = ''Invalid login: 535 Authentication failed'', code = JStr ''EAUTH''\<rparr>"

definition demo_confirmation :: confirmation where
  "demo_confirmation = \<lparr>email = JStr ''student@example.org'', name = JStr ''Asha'',
     subject = JStr ''Workshop registration'', template = JStr ''<h1>Registered</h1>''\<rparr>"

text \<open>The handle built in fallback mode for \<open>demo_account\<close> by the first call of a
  process, and the state that call leaves when it was made at time \<open>t0\<close>.\<close>

definition sandbox_handle :: transporter where
  "sandbox_handle = \<lparr>handle_id = 0, options = test_options demo_account\<rparr>"

definition sandbox_cached :: "int \<Rightarrow> gateway" where
  "sandbox_cached t0 =
     \<lparr>cachedTransporter = Some sandbox_handle, transporterCreatedAt = t0, handles = 1,
      trace = [ConsoleWarn ''Email credentials not configured. Using ethereal.email for testing.'',
               CreateTestAccount, CreateTransport (test_options demo_account)]\<rparr>"

text \<open>A store holding five logos at reference 0, and a source of random numbers.\<close>

definition demo_store :: "string store" where
  "demo_store = \<lparr>cells = (\<lambda>_. [])(0 := [Some ''a'', Some ''b'', Some ''c'', Some ''d'', Some ''e'']),
                 next_ref = 1\<rparr>"

definition demo_rng :: "nat \<Rightarrow> rat" where
  "demo_rng k = (if even k then 1 / 3 else 4 / 5)"

section \<open>Properties of the plain-text derivation\<close>

lemma dropWhile_no_gt:
  "CHR ''>'' \<notin> set cs \<Longrightarrow> dropWhile (\<lambda>x. x \<noteq> CHR ''>'') cs = []"
  by (induction cs) auto

lemma dropWhile_first_gt:
  "CHR ''>'' \<notin> set body \<Longrightarrow>
   dropWhile (\<lambda>x. x \<noteq> CHR ''>'') (body @ CHR ''>'' # rest) = CHR ''>'' # rest"
  by (induction body) auto

lemma dropWhile_gt_Nil:
  "dropWhile (\<lambda>x. x \<noteq> CHR ''>'') cs = [] \<Longrightarrow> CHR ''>'' \<notin> set cs"
  by (induction cs) (auto split: if_splits)

lemma match_tag_None_no_gt: "CHR ''>'' \<notin> set s \<Longrightarrow> match_tag s = None"
  by (cases s) (simp_all add: match_tag_def dropWhile_no_gt)

lemma strip_no_gt: "CHR ''>'' \<notin> set s \<Longrightarrow> stripHtmlTags s = s"
  by (induction s) (simp_all add: match_tag_None_no_gt)

lemma match_tag_lt_None: "match_tag (CHR ''<'' # cs) = None \<Longrightarrow> CHR ''>'' \<notin> set cs"
  by (rule dropWhile_gt_Nil) (simp add: match_tag_def split: list.splits)

lemma match_tag_other: "c \<noteq> CHR ''<'' \<Longrightarrow> match_tag (c # cs) = None"
  by (simp add: match_tag_def)

lemma match_tag_first:
  "CHR ''>'' \<notin> set body \<Longrightarrow> match_tag (CHR ''<'' # body @ CHR ''>'' # rest) = Some rest"
  by (simp add: match_tag_def dropWhile_first_gt)

text \<open>
  Claim C9. \<open>stripHtmlTags\<close> is idempotent: stripping the result of a strip changes
  nothing. A \<^verbatim>\<open><\<close> survives the first pass only when no \<^verbatim>\<open>>\<close> follows it anywhere, so the
  result holds no match for the second pass.
\<close>

theorem stripHtmlTags_idempotent: "stripHtmlTags (stripHtmlTags s) = stripHtmlTags s"
proof (induction s rule: stripHtmlTags.induct)
  case 1
  show ?case by simp
next
  case (2 c cs)
  show ?case
  proof (cases "match_tag (c # cs)")
    case (Some rest)
    with 2 show ?thesis by simp
  next
    case None
    show ?thesis
    proof (cases "c = CHR ''<''")
      case True
      with None have "CHR ''>'' \<notin> set cs" by (simp add: match_tag_lt_None)
      with True have "CHR ''>'' \<notin> set (c # cs)" by simp
      then have "stripHtmlTags (c # cs) = c # cs" by (rule strip_no_gt)
      then show ?thesis by simp
    next
      case False
      with None 2 show ?thesis by (simp add: match_tag_other)
    qed
  qed
qed

section \<open>Properties of the message sender\<close>

lemma createTransporter_settles:
  "createTestAccount w \<noteq> Pending \<Longrightarrow> \<exists>r. fst (createTransporter e w s) = Some r"
  by (auto simp: createTransporter_def cache_valid_def install_def Let_def split: promise.splits)

lemma try_settles:
  "createTestAccount w \<noteq> Pending \<Longrightarrow> \<exists>r. fst (sendEmail_try e w m s) = Some r"
  using createTransporter_settles [of w e s]
  by (auto simp: sendEmail_try_def Let_def split: prod.splits option.splits sum.splits)

lemma sendEmail_never_throws: "fst (sendEmail e w m s) \<noteq> Some (Inl err)"
  by (auto simp: sendEmail_def sendEmail_catch_def split: prod.splits option.splits sum.splits)

lemma sendEmail_resolves:
  "createTestAccount w \<noteq> Pending \<Longrightarrow> \<exists>r. fst (sendEmail e w m s) = Some (Inr r)"
  using try_settles [of w e m s]
  by (auto simp: sendEmail_def sendEmail_catch_def split: prod.splits option.splits sum.splits)

lemma try_error_normalised:
  "truthy (msg_to m) \<Longrightarrow> truthy (msg_subject m) \<Longrightarrow> truthy (msg_html m) \<Longrightarrow>
   sendEmail_try e w m s = (Some (Inl err), s1) \<Longrightarrow>
   sendEmail e w m s =
     (Some (Inr (SendFail (message err) (Some (code err)))),
      emit (ConsoleError ''Error sending email:'') s1)"
  by (simp add: sendEmail_def sendEmail_catch_def)

lemma acquisition_error_try:
  "createTransporter e w s = (Some (Inl err), s1) \<Longrightarrow> sendEmail_try e w m s = (Some (Inl err), s1)"
  by (simp add: sendEmail_try_def)

lemma delivery_error_try:
  "createTransporter e w s = (Some (Inr t), s1) \<Longrightarrow> mailOptions e m = Inr opts \<Longrightarrow>
   race (timer_first_on_tie w) (sendMail w t opts) = Inl err \<Longrightarrow>
   sendEmail_try e w m s =
     (Some (Inl err), emit (SetTimeout EMAIL_TIMEOUT) (emit (SendMail t opts) s1))"
  by (simp add: sendEmail_try_def)

lemma delivery_ok_try:
  "createTransporter e w s = (Some (Inr t), s1) \<Longrightarrow> mailOptions e m = Inr opts \<Longrightarrow>
   race (timer_first_on_tie w) (sendMail w t opts) = Inr info \<Longrightarrow>
   sendEmail_try e w m s =
     (Some (Inr (SendOk (messageId info))),
      emit (ConsoleLog ''Email sent successfully:'')
        (emit (SetTimeout EMAIL_TIMEOUT) (emit (SendMail t opts) s1)))"
  by (simp add: sendEmail_try_def)

lemma bare_unconfigured: "credentials_unconfigured bare_env"
  by (simp add: credentials_unconfigured_def bare_env_def falsy_var_def)

lemma demo_configured: "\<not> credentials_unconfigured demo_env"
  by (simp add: credentials_unconfigured_def demo_env_def falsy_var_def)

lemma initial_miss: "\<not> cache_valid w initial"
  by (simp add: cache_valid_def initial_def)

lemma demo_valid:
  "truthy (msg_to demo_message) \<and> truthy (msg_subject demo_message) \<and> truthy (msg_html demo_message)"
  by (simp add: demo_message_def)

lemma falsy_iff: "(\<not> truthy v) = (v = JUndefined \<or> v = JNull \<or> v = JStr [])"
  by (cases v) simp_all

text \<open>
  Claim C2. When \<^verbatim>\<open>to\<close>, \<^verbatim>\<open>subject\<close> or \<^verbatim>\<open>html\<close> is missing, \<^verbatim>\<open>null\<close> or the empty string,
  \<open>sendEmail\<close> resolves to the validation failure, with no \<^verbatim>\<open>code\<close> key, and the only
  effect is one line on the console: the cache is untouched, no handle is constructed, no
  test account is requested and no delivery is started.
\<close>

theorem sendEmail_validation:
  "msg_to m \<in> {JUndefined, JNull, JStr []} \<or> msg_subject m \<in> {JUndefined, JNull, JStr []}
     \<or> msg_html m \<in> {JUndefined, JNull, JStr []} \<Longrightarrow>
   sendEmail e w m s =
     (Some (Inr (SendFail ''Missing required email parameters (to, subject, or html)'' None)),
      s\<lparr>trace := trace s @ [ConsoleError ''Missing required email parameters'']\<rparr>)"
  by (auto simp: sendEmail_def emit_def)

theorem sendEmail_validation_witness:
  "msg_html (demo_message\<lparr>msg_html := JStr []\<rparr>) \<in> {JUndefined, JNull, JStr []} \<and>
   sendEmail bare_env (demo_world 0 Pending Pending) (demo_message\<lparr>msg_html := JStr []\<rparr>) initial =
     (Some (Inr (SendFail ''Missing required email parameters (to, subject, or html)'' None)),
      \<lparr>cachedTransporter = None, transporterCreatedAt = 0, handles = 0,
       trace = [ConsoleError ''Missing required email parameters'']\<rparr>)"
  using sendEmail_validation [of "demo_message\<lparr>msg_html := JStr []\<rparr>" bare_env
      "demo_world 0 Pending Pending" initial]
  by (simp add: initial_def)

lemma race_late: "late p \<Longrightarrow> race tie p = Inl timeout_error"
  by (cases p) (auto simp: race_def late_def delivery_first_def)

lemma race_in_time:
  "d < EMAIL_TIMEOUT \<Longrightarrow> race tie (Fulfilled d v) = Inr v"
  by (simp add: race_def delivery_first_def)

lemma world_sendMail_update_createTransporter:
  "createTransporter e (w\<lparr>sendMail := f\<rparr>) s = createTransporter e w s"
  by (simp add: createTransporter_def cache_valid_def Let_def split: promise.splits)

text \<open>
  Claim C5. With the required fields present and a transport acquired, delivery is raced
  against a timer of 30000 milliseconds. A delivery that is still pending then, or settles
  later, loses: the result is the failure \<^verbatim>\<open>Email sending timed out\<close>, and neither the result
  nor the state left for later calls depends on how, or whether, the late delivery ends.
\<close>

theorem sendEmail_timeout:
  assumes valid: "truthy (msg_to m)" "truthy (msg_subject m)" "truthy (msg_html m)"
    and acq: "createTransporter e w s = (Some (Inr t), s1)"
    and opts: "mailOptions e m = Inr opts"
    and slow: "late (sendMail w t opts)"
  shows "sendEmail e w m s =
           (Some (Inr (SendFail ''Email sending timed out'' (Some JUndefined))),
            emit (ConsoleError ''Error sending email:'')
              (emit (SetTimeout 30000) (emit (SendMail t opts) s1)))
         \<and> (\<forall>p. late p \<longrightarrow> sendEmail e (w\<lparr>sendMail := \<lambda>_ _. p\<rparr>) m s = sendEmail e w m s)"
proof -
  have one: "sendEmail e w' m s =
           (Some (Inr (SendFail ''Email sending timed out'' (Some JUndefined))),
            emit (ConsoleError ''Error sending email:'')
              (emit (SetTimeout 30000) (emit (SendMail t opts) s1)))"
    if "createTransporter e w' s = (Some (Inr t), s1)" and "late (sendMail w' t opts)" for w'
  proof -
    from that(2) have "race (timer_first_on_tie w') (sendMail w' t opts) = Inl timeout_error"
      by (rule race_late)
    with that(1) opts have "sendEmail_try e w' m s =
        (Some (Inl timeout_error), emit (SetTimeout EMAIL_TIMEOUT) (emit (SendMail t opts) s1))"
      by (simp add: sendEmail_try_def)
    with valid show ?thesis
      by (simp add: sendEmail_def sendEmail_catch_def timeout_error_def EMAIL_TIMEOUT_def)
  qed
  have "sendEmail e (w\<lparr>sendMail := \<lambda>_ _. p\<rparr>) m s = sendEmail e w m s" if "late p" for p
    using one [of "w\<lparr>sendMail := \<lambda>_ _. p\<rparr>"] one [of w] acq slow that
    by (simp add: world_sendMail_update_createTransporter)
  with one [OF acq slow] show ?thesis by simp
qed


lemma mailOptions_valid:
  "msg_html m = JStr h \<Longrightarrow>
   mailOptions e m =
     Inr \<lparr>mail_from = sender e, mail_to = msg_to m, mail_subject = msg_subject m,
          mail_html = JStr h,
          mail_text = (if truthy (msg_text m) then msg_text m else JStr (stripHtmlTags h)),
          priority = ''high'',
          headers = [(''X-Priority'', ''1''), (''X-MSMail-Priority'', ''High''),
                     (''Importance'', ''high'')]\<rparr>"
  by (simp add: mailOptions_def plain_text_def)

lemma demo_production:
  "createTransporter demo_env (demo_world t0 a p) initial =
     (Some (Inr \<lparr>handle_id = 0, options = production_options demo_env\<rparr>),
      \<lparr>cachedTransporter = Some \<lparr>handle_id = 0, options = production_options demo_env\<rparr>,
       transporterCreatedAt = t0, handles = 1,
       trace = [CreateTransport (production_options demo_env)]\<rparr>)"
  by (simp add: createTransporter_def cache_valid_def demo_configured install_def emit_def
      demo_world_def initial_def Let_def)

lemma demo_html: "msg_html demo_message = JStr ''<p>Hello <b>World</b></p>''"
  by (simp add: demo_message_def)

theorem sendEmail_timeout_witness:
  "truthy (msg_to demo_message) \<and> truthy (msg_subject demo_message) \<and>
   truthy (msg_html demo_message) \<and>
   late (Fulfilled 45000 \<lparr>messageId = JStr ''<1@example.org>''\<rparr>) \<and>
   fst (sendEmail demo_env
         (demo_world 0 Pending (Fulfilled 45000 \<lparr>messageId = JStr ''<1@example.org>''\<rparr>))
         demo_message initial)
     = Some (Inr (SendFail ''Email sending timed out'' (Some JUndefined)))"
proof -
  let ?p = "Fulfilled 45000 \<lparr>messageId = JStr ''<1@example.org>''\<rparr>"
  let ?w = "demo_world 0 Pending ?p"
  have l: "late ?p"
    by (simp add: late_def EMAIL_TIMEOUT_def)
  then have l': "late (sendMail ?w t opts)" for t opts
    by (simp add: demo_world_def)
  from sendEmail_timeout [OF _ _ _ demo_production mailOptions_valid [OF demo_html] l']
    demo_valid
  have "fst (sendEmail demo_env ?w demo_message initial)
     = Some (Inr (SendFail ''Email sending timed out'' (Some JUndefined)))"
    by simp
  with l demo_valid show ?thesis by simp
qed

lemma provisioning_error_thrown:
  "\<not> cache_valid w s \<Longrightarrow> credentials_unconfigured e \<Longrightarrow> createTestAccount w = Rejected d err \<Longrightarrow>
   \<exists>s1. createTransporter e w s = (Some (Inl err), s1)"
  by (simp add: createTransporter_def)

lemma race_rejected_in_time:
  "d < EMAIL_TIMEOUT \<Longrightarrow> race tie (Rejected d err) = Inl err"
  by (simp add: race_def delivery_first_def)

text \<open>
  Claim C1. \<open>sendEmail\<close> never rejects: no error leaves it. Whenever the request for a
  test account settles (or is not needed), it resolves to a structured result. With the
  required fields present, every error comes back as
  \<^verbatim>\<open>{success: false, error: message, code: code}\<close> with the message and the code of that
  very error: an error thrown by the acquisition of the transport, in particular the
  rejection of the test-account request in fallback mode; the error a delivery is rejected
  with before the timer fires (a refused connection, a failed authentication); the
  time-out error when the delivery is late; and whatever error the race of delivery and
  timer ends with.
\<close>

theorem sendEmail_exception_safe:
  "fst (sendEmail e w m s) \<noteq> Some (Inl err) \<and>
   (createTestAccount w \<noteq> Pending \<longrightarrow> (\<exists>r. fst (sendEmail e w m s) = Some (Inr r))) \<and>
   (truthy (msg_to m) \<and> truthy (msg_subject m) \<and> truthy (msg_html m) \<longrightarrow>
      (\<forall>s1. createTransporter e w s = (Some (Inl err), s1) \<longrightarrow>
         fst (sendEmail e w m s) = Some (Inr (SendFail (message err) (Some (code err))))) \<and>
      (\<forall>t s1 opts. createTransporter e w s = (Some (Inr t), s1) \<and> mailOptions e m = Inr opts \<and>
           race (timer_first_on_tie w) (sendMail w t opts) = Inl err \<longrightarrow>
         fst (sendEmail e w m s) = Some (Inr (SendFail (message err) (Some (code err))))) \<and>
      (\<forall>d. \<not> cache_valid w s \<and> credentials_unconfigured e \<and>
           createTestAccount w = Rejected d err \<longrightarrow>
         fst (sendEmail e w m s) = Some (Inr (SendFail (message err) (Some (code err))))) \<and>
      (\<forall>t s1 opts d. createTransporter e w s = (Some (Inr t), s1) \<and> mailOptions e m = Inr opts \<and>
           sendMail w t opts = Rejected d err \<and> d < 30000 \<longrightarrow>
         fst (sendEmail e w m s) = Some (Inr (SendFail (message err) (Some (code err))))) \<and>
      (\<forall>t s1 opts. createTransporter e w s = (Some (Inr t), s1) \<and> mailOptions e m = Inr opts \<and>
           late (sendMail w t opts) \<longrightarrow>
         fst (sendEmail e w m s)
           = Some (Inr (SendFail ''Email sending timed out'' (Some JUndefined)))))"
proof -
  have acq: "fst (sendEmail e w m s) = Some (Inr (SendFail (message x) (Some (code x))))"
    if "truthy (msg_to m) \<and> truthy (msg_subject m) \<and> truthy (msg_html m)"
      and "createTransporter e w s = (Some (Inl x), s1)" for x s1
  proof -
    from that(2) have "sendEmail_try e w m s = (Some (Inl x), s1)"
      by (rule acquisition_error_try)
    with that(1) show ?thesis by (simp add: try_error_normalised)
  qed
  have del: "fst (sendEmail e w m s) = Some (Inr (SendFail (message x) (Some (code x))))"
    if "truthy (msg_to m) \<and> truthy (msg_subject m) \<and> truthy (msg_html m)"
      and "createTransporter e w s = (Some (Inr t), s1)" and "mailOptions e m = Inr opts"
      and "race (timer_first_on_tie w) (sendMail w t opts) = Inl x" for x t s1 opts
  proof -
    from that(2,3,4) have "sendEmail_try e w m s =
       (Some (Inl x), emit (SetTimeout EMAIL_TIMEOUT) (emit (SendMail t opts) s1))"
      by (rule delivery_error_try)
    with that(1) show ?thesis by (simp add: try_error_normalised)
  qed
  show ?thesis
  proof (intro conjI impI allI)
    show "fst (sendEmail e w m s) \<noteq> Some (Inl err)"
      by (rule sendEmail_never_throws)
  next
    assume "createTestAccount w \<noteq> Pending"
    then show "\<exists>r. fst (sendEmail e w m s) = Some (Inr r)"
      by (rule sendEmail_resolves)
  next
    fix s1
    assume "truthy (msg_to m) \<and> truthy (msg_subject m) \<and> truthy (msg_html m)"
      and "createTransporter e w s = (Some (Inl err), s1)"
    then show "fst (sendEmail e w m s) = Some (Inr (SendFail (message err) (Some (code err))))"
      by (rule acq)
  next
    fix t s1 opts
    assume v: "truthy (msg_to m) \<and> truthy (msg_subject m) \<and> truthy (msg_html m)"
      and c: "createTransporter e w s = (Some (Inr t), s1) \<and> mailOptions e m = Inr opts \<and>
           race (timer_first_on_tie w) (sendMail w t opts) = Inl err"
    from c have "createTransporter e w s = (Some (Inr t), s1)" "mailOptions e m = Inr opts"
      "race (timer_first_on_tie w) (sendMail w t opts) = Inl err"
      by simp_all
    with v show "fst (sendEmail e w m s) = Some (Inr (SendFail (message err) (Some (code err))))"
      by (rule del)
  next
    fix d
    assume v: "truthy (msg_to m) \<and> truthy (msg_subject m) \<and> truthy (msg_html m)"
      and c: "\<not> cache_valid w s \<and> credentials_unconfigured e \<and>
           createTestAccount w = Rejected d err"
    from c obtain s1 where "createTransporter e w s = (Some (Inl err), s1)"
      using provisioning_error_thrown [of w s e d err] by blast
    with v show "fst (sendEmail e w m s) = Some (Inr (SendFail (message err) (Some (code err))))"
      by (rule acq)
  next
    fix t s1 opts d
    assume v: "truthy (msg_to m) \<and> truthy (msg_subject m) \<and> truthy (msg_html m)"
      and c: "createTransporter e w s = (Some (Inr t), s1) \<and> mailOptions e m = Inr opts \<and>
           sendMail w t opts = Rejected d err \<and> d < 30000"
    from c have r: "race (timer_first_on_tie w) (sendMail w t opts) = Inl err"
      by (simp add: race_rejected_in_time EMAIL_TIMEOUT_def)
    from c have "createTransporter e w s = (Some (Inr t), s1)" "mailOptions e m = Inr opts"
      by simp_all
    with v show "fst (sendEmail e w m s) = Some (Inr (SendFail (message err) (Some (code err))))"
      using r by (rule del)
  next
    fix t s1 opts
    assume v: "truthy (msg_to m) \<and> truthy (msg_subject m) \<and> truthy (msg_html m)"
      and c: "createTransporter e w s = (Some (Inr t), s1) \<and> mailOptions e m = Inr opts \<and>
           late (sendMail w t opts)"
    from c have r: "race (timer_first_on_tie w) (sendMail w t opts) = Inl timeout_error"
      by (simp add: race_late)
    from c have "createTransporter e w s = (Some (Inr t), s1)" "mailOptions e m = Inr opts"
      by simp_all
    with v have "fst (sendEmail e w m s)
        = Some (Inr (SendFail (message timeout_error) (Some (code timeout_error))))"
      using r by (rule del)
    then show "fst (sendEmail e w m s)
           = Some (Inr (SendFail ''Email sending timed out'' (Some JUndefined)))"
      by (simp add: timeout_error_def)
  qed
qed

theorem sendEmail_exception_safe_witness:
  "createTestAccount (demo_world 0 (Rejected 40 refused) Pending) \<noteq> Pending \<and>
   truthy (msg_to demo_message) \<and> truthy (msg_subject demo_message) \<and>
   truthy (msg_html demo_message) \<and>
   \<not> cache_valid (demo_world 0 (Rejected 40 refused) Pending) initial \<and>
   credentials_unconfigured bare_env \<and>
   fst (sendEmail bare_env (demo_world 0 (Rejected 40 refused) Pending) demo_message initial)
     = Some (Inr (SendFail ''connect ECONNREFUSED'' (Some (JStr ''ECONNREFUSED'')))) \<and>
   sendMail (demo_world 0 Pending (Rejected 300 auth_failure))
       \<lparr>handle_id = 0, options = production_options demo_env\<rparr>
       \<lparr>mail_from = sender demo_env, mail_to = JStr ''student@example.org'',
        mail_subject = JStr ''Welcome'', mail_html = JStr ''<p>Hello <b>World</b></p>'',
        mail_text = JStr ''Hello World'', priority = ''high'',
        headers = [(''X-Priority'', ''1''), (''X-MSMail-Priority'', ''High''),
                   (''Importance'', ''high'')]\<rparr>
     = Rejected 300 auth_failure \<and>
   (300 :: nat) < 30000 \<and>
   fst (sendEmail demo_env (demo_world 0 Pending (Rejected 300 auth_failure)) demo_message
          initial)
     = Some (Inr (SendFail ''Invalid login: 535 Authentication failed'' (Some (JStr ''EAUTH''))))"
proof -
  let ?w = "demo_world 0 (Rejected 40 refused) Pending"
  let ?v = "demo_world 0 Pending (Rejected 300 auth_failure)"
  let ?t = "\<lparr>handle_id = 0, options = production_options demo_env\<rparr>"
  let ?o = "\<lparr>mail_from = sender demo_env, mail_to = JStr ''student@example.org'',
        mail_subject = JStr ''Welcome'', mail_html = JStr ''<p>Hello <b>World</b></p>'',
        mail_text = JStr ''Hello World'', priority = ''high'',
        headers = [(''X-Priority'', ''1''), (''X-MSMail-Priority'', ''High''),
                   (''Importance'', ''high'')]\<rparr>"
  have a: "createTestAccount ?w \<noteq> Pending" "createTestAccount ?w = Rejected 40 refused"
    by (simp_all add: demo_world_def)
  have m: "\<not> cache_valid ?w initial" by (rule initial_miss)
  from sendEmail_exception_safe [of bare_env ?w demo_message initial refused]
    demo_valid m bare_unconfigured a(2)
  have "fst (sendEmail bare_env ?w demo_message initial)
     = Some (Inr (SendFail (message refused) (Some (code refused))))"
    by blast
  then have one: "fst (sendEmail bare_env ?w demo_message initial)
     = Some (Inr (SendFail ''connect ECONNREFUSED'' (Some (JStr ''ECONNREFUSED''))))"
    by (simp add: refused_def)
  have sm: "sendMail ?v ?t ?o = Rejected 300 auth_failure"
    by (simp add: demo_world_def)
  have mo: "mailOptions demo_env demo_message = Inr ?o"
    by (simp add: mailOptions_def plain_text_def demo_message_def match_tag_def)
  have d: "(300 :: nat) < 30000" by simp
  from sendEmail_exception_safe [of demo_env ?v demo_message initial auth_failure]
    demo_valid demo_production [of 0 Pending "Rejected 300 auth_failure"] mo sm d
  have "fst (sendEmail demo_env ?v demo_message initial)
     = Some (Inr (SendFail (message auth_failure) (Some (code auth_failure))))"
    by blast
  then have two: "fst (sendEmail demo_env ?v demo_message initial)
     = Some (Inr (SendFail ''Invalid login: 535 Authentication failed'' (Some (JStr ''EAUTH''))))"
    by (simp add: auth_failure_def)
  from a(1) demo_valid m bare_unconfigured one sm d two show ?thesis
    by simp
qed

lemma strip_no_tag:
  "(\<forall>u v. s = u @ CHR ''<'' # v \<longrightarrow> CHR ''>'' \<notin> set v) \<Longrightarrow> stripHtmlTags s = s"
proof (induction s)
  case Nil
  show ?case by simp
next
  case (Cons c cs)
  have rest: "\<forall>u v. cs = u @ CHR ''<'' # v \<longrightarrow> CHR ''>'' \<notin> set v"
  proof (intro allI impI)
    fix u v assume "cs = u @ CHR ''<'' # v"
    then have "c # cs = (c # u) @ CHR ''<'' # v" by simp
    with Cons.prems show "CHR ''>'' \<notin> set v" by blast
  qed
  have "match_tag (c # cs) = None"
  proof (cases "c = CHR ''<''")
    case True
    then have "c # cs = [] @ CHR ''<'' # cs" by simp
    with Cons.prems have "CHR ''>'' \<notin> set cs" by blast
    with True show ?thesis by (simp add: match_tag_def dropWhile_no_gt)
  next
    case False
    then show ?thesis by (rule match_tag_other)
  qed
  with Cons.IH [OF rest] show ?case by simp
qed

lemma strip_leftmost:
  "CHR ''<'' \<notin> set pre \<Longrightarrow> CHR ''>'' \<notin> set body \<Longrightarrow>
   stripHtmlTags (pre @ CHR ''<'' # body @ CHR ''>'' # rest) = pre @ stripHtmlTags rest"
  by (induction pre) (auto simp: match_tag_first match_tag_other)

text \<open>
  Claim C6. For a message with a non-empty \<^verbatim>\<open>html\<close>, the text of the outgoing message is
  the given \<^verbatim>\<open>text\<close> when that is non-empty, and the stripped \<^verbatim>\<open>html\<close> otherwise. Stripping
  \<^verbatim>\<open><p>Hello <b>World</b></p>\<close> gives \<^verbatim>\<open>Hello World\<close>. Stripping removes the leftmost
  \<^verbatim>\<open><\<close> up to the first \<^verbatim>\<open>>\<close> after it and goes on behind it, keeping what stood before; a
  string in which no \<^verbatim>\<open><\<close> is followed by a \<^verbatim>\<open>>\<close> is kept as it is.
\<close>

theorem plain_text_derivation:
  "(msg_html m = JStr h \<and> h \<noteq> [] \<longrightarrow>
      (\<exists>opts. mailOptions e m = Inr opts \<and>
         mail_text opts =
           (if truthy (msg_text m) then msg_text m else JStr (stripHtmlTags h)))) \<and>
   stripHtmlTags ''<p>Hello <b>World</b></p>'' = ''Hello World'' \<and>
   (CHR ''<'' \<notin> set pre \<and> CHR ''>'' \<notin> set body \<longrightarrow>
      stripHtmlTags (pre @ CHR ''<'' # body @ CHR ''>'' # rest) = pre @ stripHtmlTags rest) \<and>
   ((\<forall>u v. s = u @ CHR ''<'' # v \<longrightarrow> CHR ''>'' \<notin> set v) \<longrightarrow> stripHtmlTags s = s)"
proof (intro conjI impI)
  assume "msg_html m = JStr h \<and> h \<noteq> []"
  then show "\<exists>opts. mailOptions e m = Inr opts \<and>
         mail_text opts = (if truthy (msg_text m) then msg_text m else JStr (stripHtmlTags h))"
    by (simp add: mailOptions_valid)
next
  show "stripHtmlTags ''<p>Hello <b>World</b></p>'' = ''Hello World''"
    by (simp add: match_tag_def)
next
  assume "CHR ''<'' \<notin> set pre \<and> CHR ''>'' \<notin> set body"
  then show "stripHtmlTags (pre @ CHR ''<'' # body @ CHR ''>'' # rest) = pre @ stripHtmlTags rest"
    by (simp add: strip_leftmost)
next
  assume "\<forall>u v. s = u @ CHR ''<'' # v \<longrightarrow> CHR ''>'' \<notin> set v"
  then show "stripHtmlTags s = s"
    by (rule strip_no_tag)
qed


theorem plain_text_derivation_witness:
  "msg_html demo_message = JStr ''<p>Hello <b>World</b></p>'' \<and>
   ''<p>Hello <b>World</b></p>'' \<noteq> [] \<and>
   map_sum message mail_text (mailOptions demo_env demo_message) = Inr (JStr ''Hello World'') \<and>
   CHR ''<'' \<notin> set ''Hi '' \<and> CHR ''>'' \<notin> set ''b'' \<and>
   stripHtmlTags (''Hi '' @ CHR ''<'' # ''b'' @ CHR ''>'' # ''there'') = ''Hi there'' \<and>
   stripHtmlTags ''a < b'' = ''a < b''"
proof -
  have no: "\<forall>u v. ''a < b'' = u @ CHR ''<'' # v \<longrightarrow> CHR ''>'' \<notin> set v"
  proof (intro allI impI)
    fix u v assume "''a < b'' = u @ CHR ''<'' # v"
    then have "set ''a < b'' = set (u @ CHR ''<'' # v)" by (rule arg_cong)
    then show "CHR ''>'' \<notin> set v" by auto
  qed
  have nt: "\<not> truthy (msg_text demo_message)"
    by (simp add: demo_message_def)
  have st: "stripHtmlTags ''there'' = ''there''"
    by (rule strip_no_gt) simp
  from plain_text_derivation [of demo_message "''<p>Hello <b>World</b></p>''" demo_env
      "''Hi ''" "''b''" "''there''" "''a < b''"] no nt st demo_html
  show ?thesis by auto
qed


text \<open>
  Claim C7. With \<^verbatim>\<open>email\<close>, \<^verbatim>\<open>name\<close>, \<^verbatim>\<open>subject\<close> or \<^verbatim>\<open>template\<close> missing or empty, the
  helper resolves to a failure without a \<^verbatim>\<open>code\<close> key and has no effect at all: the state,
  its trace included, is unchanged, so \<open>sendEmail\<close> (which always writes to the console)
  was not called. With all four present it is \<open>sendEmail\<close> on \<^verbatim>\<open>to = email\<close>, the subject,
  \<^verbatim>\<open>html = template\<close> and no text; the value of \<^verbatim>\<open>name\<close> makes no difference.
\<close>

theorem sendWorkshopConfirmation_contract:
  "(email c \<in> {JUndefined, JNull, JStr []} \<or> name c \<in> {JUndefined, JNull, JStr []}
      \<or> subject c \<in> {JUndefined, JNull, JStr []}
      \<or> template c \<in> {JUndefined, JNull, JStr []} \<longrightarrow>
      sendWorkshopConfirmation e w c s =
        (Some (Inr (SendFail ''Missing required parameters for workshop confirmation email''
                      None)), s)) \<and>
   (truthy (email c) \<and> truthy (name c) \<and> truthy (subject c) \<and> truthy (template c) \<longrightarrow>
      sendWorkshopConfirmation e w c s =
        sendEmail e w \<lparr>msg_to = email c, msg_subject = subject c, msg_html = template c,
                       msg_text = JUndefined\<rparr> s
      \<and> (\<forall>n. truthy n \<longrightarrow>
            sendWorkshopConfirmation e w (c\<lparr>name := n\<rparr>) s = sendWorkshopConfirmation e w c s))"
  by (auto simp: sendWorkshopConfirmation_def)

theorem sendWorkshopConfirmation_contract_witness:
  "name (demo_confirmation\<lparr>name := JUndefined\<rparr>) \<in> {JUndefined, JNull, JStr []} \<and>
   sendWorkshopConfirmation bare_env (demo_world 0 Pending Pending)
       (demo_confirmation\<lparr>name := JUndefined\<rparr>) initial =
     (Some (Inr (SendFail ''Missing required parameters for workshop confirmation email'' None)),
      initial) \<and>
   truthy (email demo_confirmation) \<and> truthy (name demo_confirmation) \<and>
   truthy (subject demo_confirmation) \<and> truthy (template demo_confirmation) \<and>
   truthy (JStr ''Ravi'') \<and>
   sendWorkshopConfirmation bare_env (demo_world 0 Pending Pending)
       (demo_confirmation\<lparr>name := JStr ''Ravi''\<rparr>) initial =
     sendEmail bare_env (demo_world 0 Pending Pending)
       \<lparr>msg_to = JStr ''student@example.org'', msg_subject = JStr ''Workshop registration'',
        msg_html = JStr ''<h1>Registered</h1>'', msg_text = JUndefined\<rparr> initial"
  using sendWorkshopConfirmation_contract [of "demo_confirmation\<lparr>name := JUndefined\<rparr>"
      bare_env "demo_world 0 Pending Pending" initial]
    sendWorkshopConfirmation_contract [of demo_confirmation
      bare_env "demo_world 0 Pending Pending" initial]
  by (simp add: demo_confirmation_def)


text \<open>
  Claim C8. With the required fields present, a transport acquired and delivery fulfilled
  in less than 30000 milliseconds, \<open>sendEmail\<close> resolves to \<^verbatim>\<open>{success: true, messageId}\<close>
  where \<^verbatim>\<open>messageId\<close> is the identifier the transport reported, and it is non-empty: the
  transport reports the identifier it generated for the message, which is not empty, and
  \<open>sendEmail\<close> passes it on as it is.
\<close>

theorem sendEmail_success:
  assumes valid: "truthy (msg_to m)" "truthy (msg_subject m)" "truthy (msg_html m)"
    and acq: "createTransporter e w s = (Some (Inr t), s1)"
    and opts: "mailOptions e m = Inr opts"
    and sent: "sendMail w t opts = Fulfilled d info"
    and fast: "d < 30000"
    and reported: "truthy (messageId info)"
  shows "\<exists>mid. sendEmail e w m s =
           (Some (Inr (SendOk mid)),
            emit (ConsoleLog ''Email sent successfully:'')
              (emit (SetTimeout 30000) (emit (SendMail t opts) s1))) \<and>
         mid = messageId info \<and> truthy mid"
proof -
  from sent fast have "race (timer_first_on_tie w) (sendMail w t opts) = Inr info"
    by (simp add: race_in_time EMAIL_TIMEOUT_def)
  with acq opts have "sendEmail_try e w m s =
     (Some (Inr (SendOk (messageId info))),
      emit (ConsoleLog ''Email sent successfully:'')
        (emit (SetTimeout EMAIL_TIMEOUT) (emit (SendMail t opts) s1)))"
    by (simp add: sendEmail_try_def)
  with valid have "sendEmail e w m s =
           (Some (Inr (SendOk (messageId info))),
            emit (ConsoleLog ''Email sent successfully:'')
              (emit (SetTimeout 30000) (emit (SendMail t opts) s1)))"
    by (simp add: sendEmail_def EMAIL_TIMEOUT_def)
  with reported show ?thesis by simp
qed

theorem sendEmail_success_witness:
  "truthy (msg_to demo_message) \<and> truthy (msg_subject demo_message) \<and>
   truthy (msg_html demo_message) \<and> (120 :: nat) < 30000 \<and>
   truthy (messageId \<lparr>messageId = JStr ''<1@example.org>''\<rparr>) \<and>
   fst (sendEmail demo_env
         (demo_world 0 Pending (Fulfilled 120 \<lparr>messageId = JStr ''<1@example.org>''\<rparr>))
         demo_message initial)
     = Some (Inr (SendOk (JStr ''<1@example.org>'')))"
proof -
  let ?w = "demo_world 0 Pending (Fulfilled 120 \<lparr>messageId = JStr ''<1@example.org>''\<rparr>)"
  have d: "sendMail ?w t opts = Fulfilled 120 \<lparr>messageId = JStr ''<1@example.org>''\<rparr>"
    for t opts
    by (simp add: demo_world_def)
  have r: "truthy (messageId \<lparr>messageId = JStr ''<1@example.org>''\<rparr>)" by simp
  have f: "(120 :: nat) < 30000" by simp
  from sendEmail_success [OF _ _ _ demo_production mailOptions_valid [OF demo_html] d f r]
    demo_valid
  have "fst (sendEmail demo_env ?w demo_message initial)
     = Some (Inr (SendOk (JStr ''<1@example.org>'')))"
    by auto
  with demo_valid show ?thesis by simp
qed

section \<open>Properties of the transport cache\<close>

lemma parseInt_587: "parseInt ''587'' = Some 587"
  by (simp add: parseInt_def is_space_def is_digit_def Let_def)

lemma hit: "cache_valid w s \<Longrightarrow> createTransporter e w s = (map_option Inr (cachedTransporter s), s)"
  by (simp add: createTransporter_def)

lemma emit_neq: "emit ev s \<noteq> s"
proof
  assume "emit ev s = s"
  then have "trace (emit ev s) = trace s" by simp
  then show False by (simp add: emit_def)
qed

lemma trace_emit: "trace (emit ev s) = trace s @ [ev]"
  by (simp add: emit_def)

lemma miss_trace_grows:
  "\<not> cache_valid w s \<Longrightarrow> length (trace s) < length (trace (snd (createTransporter e w s)))"
  by (simp add: createTransporter_def install_def emit_def Let_def split: promise.splits)

lemma miss_changes_state: "\<not> cache_valid w s \<Longrightarrow> snd (createTransporter e w s) \<noteq> s"
  using miss_trace_grows [of w s e] by auto

lemma cache_iff:
  assumes "cachedTransporter s = Some t"
  shows "(createTransporter e w s = (Some (Inr t), s))
           = (now w - transporterCreatedAt s < 30 * 60 * 1000)"
proof
  assume r: "createTransporter e w s = (Some (Inr t), s)"
  show "now w - transporterCreatedAt s < 30 * 60 * 1000"
  proof (rule ccontr)
    assume "\<not> now w - transporterCreatedAt s < 30 * 60 * 1000"
    then have "\<not> cache_valid w s" by (simp add: cache_valid_def TRANSPORTER_TTL_def)
    then have "snd (createTransporter e w s) \<noteq> s" by (rule miss_changes_state)
    with r show False by simp
  qed
next
  assume "now w - transporterCreatedAt s < 30 * 60 * 1000"
  with assms have "cache_valid w s" by (simp add: cache_valid_def TRANSPORTER_TTL_def)
  with assms show "createTransporter e w s = (Some (Inr t), s)" by (simp add: hit)
qed

lemma calls_in_window:
  "cachedTransporter s = Some t \<Longrightarrow>
   \<forall>c \<in> set cs. now (snd c) - transporterCreatedAt s < 30 * 60 * 1000 \<Longrightarrow>
   createTransporter_calls cs s = (replicate (length cs) (Some (Inr t)), s)"
proof (induction cs)
  case Nil
  show ?case by simp
next
  case (Cons c cs)
  obtain e w where c: "c = (e, w)" by (cases c)
  with Cons.prems have "createTransporter e w s = (Some (Inr t), s)"
    by (simp add: cache_iff)
  with Cons c show ?case by simp
qed

lemma constructing_call:
  "\<not> cache_valid w s0 \<Longrightarrow> createTransporter e w s0 = (Some (Inr h), s) \<Longrightarrow>
   cachedTransporter s = Some h \<and> transporterCreatedAt s = now w \<and>
   handles s = Suc (handles s0) \<and> handle_id h = handles s0"
  by (auto simp: createTransporter_def install_def emit_def Let_def
      split: promise.splits if_splits)

lemma rebuild_ok:
  "\<not> cache_valid w s \<Longrightarrow>
   \<not> credentials_unconfigured e \<or> (\<exists>d a. createTestAccount w = Fulfilled d a) \<Longrightarrow>
   \<exists>h s'. createTransporter e w s = (Some (Inr h), s')"
  by (auto simp: createTransporter_def install_def Let_def)

lemma rebuild_fails:
  "\<not> cache_valid w s \<Longrightarrow> credentials_unconfigured e \<Longrightarrow> createTestAccount w = Rejected d err \<Longrightarrow>
   \<exists>s'. createTransporter e w s = (Some (Inl err), s') \<and>
      cachedTransporter s' = cachedTransporter s \<and>
      transporterCreatedAt s' = transporterCreatedAt s \<and> handles s' = handles s"
  by (simp add: createTransporter_def emit_def)


lemma sandbox_first_call:
  "createTransporter bare_env (demo_world t0 (Fulfilled d demo_account) p) initial =
     (Some (Inr sandbox_handle), sandbox_cached t0)"
  by (simp add: createTransporter_def cache_valid_def bare_unconfigured install_def emit_def
      demo_world_def initial_def Let_def sandbox_handle_def sandbox_cached_def)

text \<open>
  Claim C3, as amended. (1) With a handle cached, a call returns it and leaves the state
  as it is if and only if \<open>now - transporterCreatedAt < 30 * 60 * 1000\<close>. (2) After a call
  that constructed a handle at time \<open>now w0\<close>, every later call of a sequence that is made
  less than the TTL after \<open>now w0\<close> returns that same handle, and the whole sequence
  constructed one handle. (3) A call made once the TTL has elapsed constructs a new handle,
  caches it and records the time of the call, provided construction can succeed:
  credentials are configured, or the test account is provisioned. (4) When, in fallback
  mode, provisioning fails, the error is thrown and the stale handle and its timestamp
  stay in the cache.
\<close>

theorem transport_cache_ttl:
  "(cachedTransporter s = Some t \<longrightarrow>
      ((createTransporter e w s = (Some (Inr t), s))
         = (now w - transporterCreatedAt s < 30 * 60 * 1000))) \<and>
   (\<not> cache_valid w0 s0 \<and> createTransporter e0 w0 s0 = (Some (Inr h), s1) \<and>
    (\<forall>c \<in> set cs. now (snd c) - now w0 < 30 * 60 * 1000) \<longrightarrow>
      createTransporter_calls ((e0, w0) # cs) s0
         = (replicate (Suc (length cs)) (Some (Inr h)), s1) \<and>
      handles s1 = Suc (handles s0)) \<and>
   (cachedTransporter s = Some t \<and> 30 * 60 * 1000 \<le> now w - transporterCreatedAt s \<and>
    (\<not> credentials_unconfigured e \<or> (\<exists>d a. createTestAccount w = Fulfilled d a)) \<longrightarrow>
      (\<exists>h' s'. createTransporter e w s = (Some (Inr h'), s') \<and> handle_id h' = handles s \<and>
         cachedTransporter s' = Some h' \<and> transporterCreatedAt s' = now w \<and>
         handles s' = Suc (handles s))) \<and>
   (cachedTransporter s = Some t \<and> 30 * 60 * 1000 \<le> now w - transporterCreatedAt s \<and>
    credentials_unconfigured e \<and> createTestAccount w = Rejected d err \<longrightarrow>
      (\<exists>s'. createTransporter e w s = (Some (Inl err), s') \<and> cachedTransporter s' = Some t \<and>
         transporterCreatedAt s' = transporterCreatedAt s \<and> handles s' = handles s))"
proof (intro conjI impI)
  assume "cachedTransporter s = Some t"
  then show "(createTransporter e w s = (Some (Inr t), s))
         = (now w - transporterCreatedAt s < 30 * 60 * 1000)"
    by (rule cache_iff)
next
  assume a: "\<not> cache_valid w0 s0 \<and> createTransporter e0 w0 s0 = (Some (Inr h), s1) \<and>
    (\<forall>c \<in> set cs. now (snd c) - now w0 < 30 * 60 * 1000)"
  then have c: "cachedTransporter s1 = Some h \<and> transporterCreatedAt s1 = now w0 \<and>
     handles s1 = Suc (handles s0) \<and> handle_id h = handles s0"
    using constructing_call [of w0 s0 e0 h s1] by blast
  with a have "createTransporter_calls cs s1 = (replicate (length cs) (Some (Inr h)), s1)"
    by (simp add: calls_in_window)
  with a show "createTransporter_calls ((e0, w0) # cs) s0
         = (replicate (Suc (length cs)) (Some (Inr h)), s1)"
    by simp
  from c show "handles s1 = Suc (handles s0)" by simp
next
  assume a: "cachedTransporter s = Some t \<and> 30 * 60 * 1000 \<le> now w - transporterCreatedAt s \<and>
    (\<not> credentials_unconfigured e \<or> (\<exists>d a. createTestAccount w = Fulfilled d a))"
  then have m: "\<not> cache_valid w s" by (simp add: cache_valid_def TRANSPORTER_TTL_def)
  with a obtain h' s' where r: "createTransporter e w s = (Some (Inr h'), s')"
    using rebuild_ok [of w s e] by blast
  with m have "cachedTransporter s' = Some h' \<and> transporterCreatedAt s' = now w \<and>
     handles s' = Suc (handles s) \<and> handle_id h' = handles s"
    by (rule constructing_call)
  with r show "\<exists>h' s'. createTransporter e w s = (Some (Inr h'), s') \<and> handle_id h' = handles s \<and>
         cachedTransporter s' = Some h' \<and> transporterCreatedAt s' = now w \<and>
         handles s' = Suc (handles s)"
    by blast
next
  assume a: "cachedTransporter s = Some t \<and> 30 * 60 * 1000 \<le> now w - transporterCreatedAt s \<and>
    credentials_unconfigured e \<and> createTestAccount w = Rejected d err"
  then have m: "\<not> cache_valid w s" by (simp add: cache_valid_def TRANSPORTER_TTL_def)
  with a show "\<exists>s'. createTransporter e w s = (Some (Inl err), s') \<and> cachedTransporter s' = Some t \<and>
         transporterCreatedAt s' = transporterCreatedAt s \<and> handles s' = handles s"
    using rebuild_fails [of w s e d err] by auto
qed

theorem transport_cache_ttl_counterexample:
  "createTransporter bare_env (demo_world 1000 (Fulfilled 250 demo_account) Pending) initial
     = (Some (Inr sandbox_handle), sandbox_cached 1000) \<and>
   cachedTransporter (sandbox_cached 1000) = Some sandbox_handle \<and>
   30 * 60 * 1000 \<le> now (demo_world 1801000 (Rejected 40 refused) Pending)
                       - transporterCreatedAt (sandbox_cached 1000) \<and>
   fst (createTransporter bare_env (demo_world 1801000 (Rejected 40 refused) Pending)
          (sandbox_cached 1000)) = Some (Inl refused) \<and>
   cachedTransporter (snd (createTransporter bare_env
       (demo_world 1801000 (Rejected 40 refused) Pending) (sandbox_cached 1000)))
     = Some sandbox_handle \<and>
   transporterCreatedAt (snd (createTransporter bare_env
       (demo_world 1801000 (Rejected 40 refused) Pending) (sandbox_cached 1000))) = 1000 \<and>
   handles (snd (createTransporter bare_env
       (demo_world 1801000 (Rejected 40 refused) Pending) (sandbox_cached 1000))) = 1"
proof -
  have m: "\<not> cache_valid (demo_world 1801000 (Rejected 40 refused) Pending) (sandbox_cached 1000)"
    by (simp add: cache_valid_def demo_world_def sandbox_cached_def TRANSPORTER_TTL_def)
  have r: "createTestAccount (demo_world 1801000 (Rejected 40 refused) Pending)
      = Rejected 40 refused"
    by (simp add: demo_world_def)
  have "30 * 60 * 1000 \<le> now (demo_world 1801000 (Rejected 40 refused) Pending)
                       - transporterCreatedAt (sandbox_cached 1000)"
    by (simp add: demo_world_def sandbox_cached_def)
  moreover have "cachedTransporter (sandbox_cached 1000) = Some sandbox_handle"
      "transporterCreatedAt (sandbox_cached 1000) = 1000" "handles (sandbox_cached 1000) = 1"
    by (simp_all add: sandbox_cached_def)
  ultimately show ?thesis
    using rebuild_fails [OF m bare_unconfigured r] sandbox_first_call [of 1000 250 Pending]
    by auto
qed

theorem transport_cache_ttl_witness:
  "cachedTransporter (sandbox_cached 1000) = Some sandbox_handle \<and>
   createTransporter bare_env (demo_world 2000 Pending Pending) (sandbox_cached 1000)
     = (Some (Inr sandbox_handle), sandbox_cached 1000) \<and>
   \<not> cache_valid (demo_world 1000 (Fulfilled 250 demo_account) Pending) initial \<and>
   createTransporter_calls
      [(bare_env, demo_world 1000 (Fulfilled 250 demo_account) Pending),
       (bare_env, demo_world 2000 Pending Pending),
       (bare_env, demo_world 1800999 Pending Pending)] initial
     = ([Some (Inr sandbox_handle), Some (Inr sandbox_handle), Some (Inr sandbox_handle)],
        sandbox_cached 1000) \<and>
   (\<exists>h' s'. createTransporter bare_env (demo_world 1801000 (Fulfilled 90 demo_account) Pending)
                (sandbox_cached 1000) = (Some (Inr h'), s') \<and>
       handle_id h' = 1 \<and> cachedTransporter s' = Some h' \<and>
       transporterCreatedAt s' = 1801000 \<and> handles s' = 2) \<and>
   (\<exists>s'. createTransporter bare_env (demo_world 1801000 (Rejected 40 refused) Pending)
                (sandbox_cached 1000) = (Some (Inl refused), s') \<and>
       cachedTransporter s' = Some sandbox_handle \<and> transporterCreatedAt s' = 1000 \<and>
       handles s' = 1)"
proof -
  let ?cs = "[(bare_env, demo_world 2000 Pending Pending),
              (bare_env, demo_world 1800999 Pending Pending)]"
  have c: "cachedTransporter (sandbox_cached 1000) = Some sandbox_handle"
      "transporterCreatedAt (sandbox_cached 1000) = 1000" "handles (sandbox_cached 1000) = 1"
    by (simp_all add: sandbox_cached_def)
  have n: "now (demo_world t0 a p) = t0" "createTestAccount (demo_world t0 a p) = a" for t0 a p
    by (simp_all add: demo_world_def)
  have w: "\<forall>c \<in> set ?cs. now (snd c) - now (demo_world 1000 (Fulfilled 250 demo_account) Pending)
            < 30 * 60 * 1000"
    by (simp add: n)
  note first = sandbox_first_call [of 1000 250 Pending]
  from transport_cache_ttl [of "sandbox_cached 1000" sandbox_handle bare_env
      "demo_world 2000 Pending Pending"
      "demo_world 1000 (Fulfilled 250 demo_account) Pending" initial bare_env sandbox_handle
      "sandbox_cached 1000" ?cs 40 refused]
  have one: "createTransporter bare_env (demo_world 2000 Pending Pending) (sandbox_cached 1000)
       = (Some (Inr sandbox_handle), sandbox_cached 1000)"
    and two: "createTransporter_calls
        ((bare_env, demo_world 1000 (Fulfilled 250 demo_account) Pending) # ?cs) initial
       = ([Some (Inr sandbox_handle), Some (Inr sandbox_handle), Some (Inr sandbox_handle)],
          sandbox_cached 1000)"
    using c n w first initial_miss by (simp_all del: createTransporter_calls.simps)
  from transport_cache_ttl [of "sandbox_cached 1000" sandbox_handle bare_env
      "demo_world 1801000 (Fulfilled 90 demo_account) Pending"
      "demo_world 1000 (Fulfilled 250 demo_account) Pending" initial bare_env sandbox_handle
      "sandbox_cached 1000" ?cs 40 refused]
  have three: "\<exists>h' s'. createTransporter bare_env
                (demo_world 1801000 (Fulfilled 90 demo_account) Pending)
                (sandbox_cached 1000) = (Some (Inr h'), s') \<and>
       handle_id h' = 1 \<and> cachedTransporter s' = Some h' \<and>
       transporterCreatedAt s' = 1801000 \<and> handles s' = 2"
    using c n by (simp del: createTransporter_calls.simps add: numeral_2_eq_2)
  from transport_cache_ttl [of "sandbox_cached 1000" sandbox_handle bare_env
      "demo_world 1801000 (Rejected 40 refused) Pending"
      "demo_world 1000 (Fulfilled 250 demo_account) Pending" initial bare_env sandbox_handle
      "sandbox_cached 1000" ?cs 40 refused]
  have four: "\<exists>s'. createTransporter bare_env (demo_world 1801000 (Rejected 40 refused) Pending)
                (sandbox_cached 1000) = (Some (Inl refused), s') \<and>
       cachedTransporter s' = Some sandbox_handle \<and> transporterCreatedAt s' = 1000 \<and>
       handles s' = 1"
    using c n bare_unconfigured by (simp del: createTransporter_calls.simps)
  from one two three four c initial_miss show ?thesis
    by (simp del: createTransporter_calls.simps)
qed


lemma unconfigured_iff:
  "credentials_unconfigured e =
     (EMAIL_USER e \<in> {None, Some [], Some ''YOUR_EMAIL_HERE''} \<or>
      EMAIL_PASSWORD e \<in> {None, Some [], Some ''YOUR_APP_PASSWORD_HERE''})"
  by (auto simp: credentials_unconfigured_def falsy_var_def split: option.splits)

lemma or_default_iff:
  "or_default v d = (if v \<in> {None, Some []} then d else the v)"
  by (auto simp: or_default_def split: option.splits)

lemma test_mode_events:
  "\<not> cache_valid w s \<Longrightarrow> credentials_unconfigured e \<Longrightarrow>
   CreateTestAccount \<in> set (new_events s (snd (createTransporter e w s)))"
  by (simp add: createTransporter_def new_events_def install_def emit_def Let_def
      split: promise.splits)

lemma production_mode_events:
  "\<not> cache_valid w s \<Longrightarrow> \<not> credentials_unconfigured e \<Longrightarrow>
   new_events s (snd (createTransporter e w s)) = [CreateTransport (production_options e)]"
  by (simp add: createTransporter_def new_events_def install_def emit_def Let_def)

lemma test_mode_handle:
  "\<not> cache_valid w s \<Longrightarrow> credentials_unconfigured e \<Longrightarrow> createTestAccount w = Fulfilled d a \<Longrightarrow>
   fst (createTransporter e w s) = Some (Inr \<lparr>handle_id = handles s, options = test_options a\<rparr>)"
  by (simp add: createTransporter_def install_def emit_def Let_def)

lemma production_mode_handle:
  "\<not> cache_valid w s \<Longrightarrow> \<not> credentials_unconfigured e \<Longrightarrow>
   fst (createTransporter e w s)
     = Some (Inr \<lparr>handle_id = handles s, options = production_options e\<rparr>)"
  by (simp add: createTransporter_def install_def emit_def Let_def)

text \<open>
  Claim C4. On a cache miss, a test account is requested exactly when \<^verbatim>\<open>EMAIL_USER\<close> is
  not set, empty or \<^verbatim>\<open>YOUR_EMAIL_HERE\<close>, or \<^verbatim>\<open>EMAIL_PASSWORD\<close> is not set, empty or
  \<^verbatim>\<open>YOUR_APP_PASSWORD_HERE\<close>. In that case the handle built from the provisioned account is
  at \<^verbatim>\<open>smtp.ethereal.email\<close>, port 587, not secure, with the account's credentials and no
  pool. Otherwise the handle has the configured host (default \<^verbatim>\<open>smtp.gmail.com\<close>), the
  configured port (default 587), \<^verbatim>\<open>secure\<close> exactly when \<^verbatim>\<open>EMAIL_SECURE\<close> is \<^verbatim>\<open>true\<close>, the
  configured credentials, a pool of 5 connections and 100 messages per connection, and
  timeouts of 10000 and 20000 milliseconds.
\<close>

theorem mode_selection:
  assumes miss: "\<not> cache_valid w s"
  shows
  "((CreateTestAccount \<in> set (new_events s (snd (createTransporter e w s)))) =
      (EMAIL_USER e \<in> {None, Some [], Some ''YOUR_EMAIL_HERE''} \<or>
       EMAIL_PASSWORD e \<in> {None, Some [], Some ''YOUR_APP_PASSWORD_HERE''})) \<and>
   (EMAIL_USER e \<in> {None, Some [], Some ''YOUR_EMAIL_HERE''} \<or>
    EMAIL_PASSWORD e \<in> {None, Some [], Some ''YOUR_APP_PASSWORD_HERE''} \<longrightarrow>
      (\<forall>d a. createTestAccount w = Fulfilled d a \<longrightarrow>
         fst (createTransporter e w s) =
           Some (Inr \<lparr>handle_id = handles s,
                      options = \<lparr>host = ''smtp.ethereal.email'', port = Some 587, secure = False,
                        auth_user = Some (user a), auth_pass = Some (pass a),
                        pool = None, maxConnections = None, maxMessages = None,
                        connectionTimeout = None, socketTimeout = None\<rparr>\<rparr>))) \<and>
   (\<not> (EMAIL_USER e \<in> {None, Some [], Some ''YOUR_EMAIL_HERE''} \<or>
       EMAIL_PASSWORD e \<in> {None, Some [], Some ''YOUR_APP_PASSWORD_HERE''}) \<longrightarrow>
      fst (createTransporter e w s) =
        Some (Inr \<lparr>handle_id = handles s,
                   options = \<lparr>host = (if EMAIL_HOST e \<in> {None, Some []} then ''smtp.gmail.com''
                                      else the (EMAIL_HOST e)),
                     port = (if EMAIL_PORT e \<in> {None, Some []} then Some 587
                             else parseInt (the (EMAIL_PORT e))),
                     secure = (EMAIL_SECURE e = Some ''true''),
                     auth_user = EMAIL_USER e, auth_pass = EMAIL_PASSWORD e,
                     pool = Some True, maxConnections = Some 5, maxMessages = Some 100,
                     connectionTimeout = Some 10000, socketTimeout = Some 20000\<rparr>\<rparr>))"
proof -
  have opts: "production_options e =
      \<lparr>host = (if EMAIL_HOST e \<in> {None, Some []} then ''smtp.gmail.com''
                                      else the (EMAIL_HOST e)),
                     port = (if EMAIL_PORT e \<in> {None, Some []} then Some 587
                             else parseInt (the (EMAIL_PORT e))),
                     secure = (EMAIL_SECURE e = Some ''true''),
                     auth_user = EMAIL_USER e, auth_pass = EMAIL_PASSWORD e,
                     pool = Some True, maxConnections = Some 5, maxMessages = Some 100,
                     connectionTimeout = Some 10000, socketTimeout = Some 20000\<rparr>"
    unfolding production_options_def or_default_iff [of "EMAIL_HOST e"]
      or_default_iff [of "EMAIL_PORT e"]
    by (simp add: parseInt_587)
  show ?thesis
  proof (cases "credentials_unconfigured e")
    case True
    with miss have "CreateTestAccount \<in> set (new_events s (snd (createTransporter e w s)))"
      by (simp add: test_mode_events)
    moreover have "fst (createTransporter e w s) =
           Some (Inr \<lparr>handle_id = handles s, options = test_options a\<rparr>)"
      if "createTestAccount w = Fulfilled d a" for d a
      using miss True that by (rule test_mode_handle)
    ultimately show ?thesis
      using True unfolding unconfigured_iff test_options_def by simp
  next
    case False
    with miss have "CreateTestAccount \<notin> set (new_events s (snd (createTransporter e w s)))"
      by (simp add: production_mode_events)
    moreover from miss False have "fst (createTransporter e w s)
       = Some (Inr \<lparr>handle_id = handles s, options = production_options e\<rparr>)"
      by (rule production_mode_handle)
    ultimately show ?thesis
      using False unfolding unconfigured_iff opts by auto
  qed
qed

theorem mode_selection_witness:
  "\<not> cache_valid (demo_world 0 (Fulfilled 250 demo_account) Pending) initial \<and>
   EMAIL_USER bare_env \<in> {None, Some [], Some ''YOUR_EMAIL_HERE''} \<and>
   createTestAccount (demo_world 0 (Fulfilled 250 demo_account) Pending)
     = Fulfilled 250 demo_account \<and>
   fst (createTransporter bare_env (demo_world 0 (Fulfilled 250 demo_account) Pending) initial)
     = Some (Inr \<lparr>handle_id = 0,
                  options = \<lparr>host = ''smtp.ethereal.email'', port = Some 587, secure = False,
                    auth_user = Some ''demo@ethereal.email'', auth_pass = Some ''secret'',
                    pool = None, maxConnections = None, maxMessages = None,
                    connectionTimeout = None, socketTimeout = None\<rparr>\<rparr>) \<and>
   \<not> (EMAIL_USER demo_env \<in> {None, Some [], Some ''YOUR_EMAIL_HERE''} \<or>
       EMAIL_PASSWORD demo_env \<in> {None, Some [], Some ''YOUR_APP_PASSWORD_HERE''}) \<and>
   fst (createTransporter demo_env (demo_world 0 (Fulfilled 250 demo_account) Pending) initial)
     = Some (Inr \<lparr>handle_id = 0,
                  options = \<lparr>host = ''smtp.gmail.com'', port = Some 587, secure = False,
                    auth_user = Some ''club@example.org'', auth_pass = Some ''app-password'',
                    pool = Some True, maxConnections = Some 5, maxMessages = Some 100,
                    connectionTimeout = Some 10000, socketTimeout = Some 20000\<rparr>\<rparr>)"
proof -
  let ?w = "demo_world 0 (Fulfilled 250 demo_account) Pending"
  have m: "\<not> cache_valid ?w initial" by (rule initial_miss)
  have a: "createTestAccount ?w = Fulfilled 250 demo_account"
    by (simp add: demo_world_def)
  have h0: "handles initial = 0" by (simp add: initial_def)
  have b: "EMAIL_USER bare_env = None" by (simp add: bare_env_def)
  have d: "EMAIL_USER demo_env = Some ''club@example.org''"
      "EMAIL_PASSWORD demo_env = Some ''app-password''"
      "EMAIL_HOST demo_env = None" "EMAIL_PORT demo_env = None" "EMAIL_SECURE demo_env = None"
    by (simp_all add: demo_env_def)
  have acct: "user demo_account = ''demo@ethereal.email''" "pass demo_account = ''secret''"
    by (simp_all add: demo_account_def)
  from mode_selection [OF m, of bare_env] a b h0 acct
  have one: "fst (createTransporter bare_env ?w initial)
     = Some (Inr \<lparr>handle_id = 0,
                  options = \<lparr>host = ''smtp.ethereal.email'', port = Some 587, secure = False,
                    auth_user = Some ''demo@ethereal.email'', auth_pass = Some ''secret'',
                    pool = None, maxConnections = None, maxMessages = None,
                    connectionTimeout = None, socketTimeout = None\<rparr>\<rparr>)"
    by simp
  from mode_selection [OF m, of demo_env] d h0
  have two: "fst (createTransporter demo_env ?w initial)
     = Some (Inr \<lparr>handle_id = 0,
                  options = \<lparr>host = ''smtp.gmail.com'', port = Some 587, secure = False,
                    auth_user = Some ''club@example.org'', auth_pass = Some ''app-password'',
                    pool = Some True, maxConnections = Some 5, maxMessages = Some 100,
                    connectionTimeout = Some 10000, socketTimeout = Some 20000\<rparr>\<rparr>)"
    by simp
  from m a b d one two show ?thesis by simp
qed

section \<open>Properties of the carousel\<close>

lemma pick_less: "0 < n \<Longrightarrow> pick rng k n < n"
proof -
  assume n: "0 < n"
  have "frac (rng k) < 1" by (rule frac_lt_1)
  with n have "frac (rng k) * of_nat n < of_nat n" by simp
  then have "\<lfloor>frac (rng k) * of_nat n\<rfloor> < int n"
    by (simp add: floor_less_iff)
  moreover have "0 \<le> frac (rng k) * of_nat n" by simp
  then have "0 \<le> \<lfloor>frac (rng k) * of_nat n\<rfloor>" by simp
  ultimately show ?thesis by (simp add: pick_def nat_less_iff)
qed

lemma element_nth: "i < length xs \<Longrightarrow> element xs i = xs ! i"
  by (simp add: element_def)

lemma shuffle_loop_frame:
  "i < length (cells st shuffled) \<Longrightarrow> shuffle_loop rng i k shuffled st = (k', st') \<Longrightarrow>
   next_ref st' = next_ref st \<and> (\<forall>r. r \<noteq> shuffled \<longrightarrow> cells st' r = cells st r) \<and>
   set (cells st' shuffled) = set (cells st shuffled) \<and>
   length (cells st' shuffled) = length (cells st shuffled)"
proof (induction i arbitrary: k st)
  case 0
  then show ?case by simp
next
  case (Suc i)
  let ?j = "pick rng k (Suc i + 1)"
  let ?xs = "cells st shuffled"
  let ?ys = "?xs[Suc i := element ?xs ?j, ?j := element ?xs (Suc i)]"
  let ?st = "st\<lparr>cells := (cells st)(shuffled := ?ys)\<rparr>"
  have j: "?j < Suc i + 1" by (rule pick_less) simp
  with Suc.prems(1) have jl: "?j < length ?xs" by simp
  from Suc.prems(1) jl have ys: "?ys = ?xs[Suc i := ?xs ! ?j, ?j := ?xs ! Suc i]"
    by (simp add: element_nth)
  from Suc.prems(1) jl have sety: "set ?ys = set ?xs"
    unfolding ys by (rule set_swap)
  have leny: "length ?ys = length ?xs" by simp
  from Suc.prems(2) have run: "shuffle_loop rng i (Suc k) shuffled ?st = (k', st')"
    by (simp add: Let_def)
  from Suc.prems(1) have "i < length (cells ?st shuffled)" by simp
  from Suc.IH [OF this run] sety leny show ?case by simp
qed

lemma shuffleArray_result:
  assumes "array < next_ref st" and "shuffleArray rng k array st = (shuffled, k', st')"
  shows "shuffled = next_ref st \<and> next_ref st' = Suc (next_ref st) \<and>
     (\<forall>r. r \<noteq> shuffled \<longrightarrow> cells st' r = cells st r) \<and>
     set (cells st' shuffled) = set (cells st array) \<and>
     length (cells st' shuffled) = length (cells st array)"
proof -
  let ?st1 = "\<lparr>cells = (cells st)(next_ref st := cells st array),
               next_ref = Suc (next_ref st)\<rparr>"
  from assms(2) have sh: "shuffled = next_ref st"
    by (simp add: shuffleArray_def alloc_def split: prod.splits)
  from assms(2) have run:
    "shuffle_loop rng (length (cells st array) - 1) k (next_ref st) ?st1 = (k', st')"
    by (auto simp: shuffleArray_def alloc_def split: prod.splits)
  show ?thesis
  proof (cases "cells st array = []")
    case True
    with run have "st' = ?st1" by simp
    with sh True show ?thesis by simp
  next
    case False
    then have "length (cells st array) - 1 < length (cells ?st1 (next_ref st))" by simp
    from shuffle_loop_frame [OF this run] sh show ?thesis by simp
  qed
qed

lemma new_arrays_result:
  "new_arrays n st = (columns, st') \<Longrightarrow>
   columns = [next_ref st ..< next_ref st + n] \<and> next_ref st' = next_ref st + n \<and>
   (\<forall>r. r < next_ref st \<longrightarrow> cells st' r = cells st r) \<and>
   (\<forall>c \<in> set columns. cells st' c = [])"
proof (induction n arbitrary: st columns)
  case 0
  then show ?case by simp
next
  case (Suc n)
  let ?st1 = "\<lparr>cells = (cells st)(next_ref st := []), next_ref = Suc (next_ref st)\<rparr>"
  from Suc.prems obtain cs where run: "new_arrays n ?st1 = (cs, st')"
    and cols: "columns = next_ref st # cs"
    by (auto simp: alloc_def split: prod.splits)
  from Suc.IH [OF run] have ih: "cs = [Suc (next_ref st) ..< Suc (next_ref st) + n]"
    "next_ref st' = Suc (next_ref st) + n"
    "\<forall>r. r < Suc (next_ref st) \<longrightarrow> cells st' r = cells ?st1 r"
    "\<forall>c \<in> set cs. cells st' c = []"
    by simp_all
  from cols ih(1) have a: "columns = [next_ref st ..< next_ref st + Suc n]"
    by (simp add: upt_rec)
  from ih(3) have z: "cells st' (next_ref st) = []" by simp
  from ih(3) have b: "\<forall>r. r < next_ref st \<longrightarrow> cells st' r = cells st r" by simp
  from z ih(4) cols have c: "\<forall>c \<in> set columns. cells st' c = []" by simp
  from ih(2) have d: "next_ref st' = next_ref st + Suc n" by simp
  from a b c d show ?case by blast
qed


lemma cells_push: "cells (push c x st) r = (if r = c then cells st c @ [x] else cells st r)"
  by (simp add: push_def)

lemma next_ref_push: "next_ref (push c x st) = next_ref st"
  by (simp add: push_def)

lemma distribute_result:
  assumes n: "0 < n" "length columns = n" and sh: "shuffled \<notin> set columns"
  shows "index + m \<le> length (cells st shuffled) \<Longrightarrow>
    \<exists>st'. distribute m index shuffled columns n st = Inr st' \<and>
      next_ref st' = next_ref st \<and>
      (\<forall>r. r \<notin> set columns \<longrightarrow> cells st' r = cells st r) \<and>
      (\<forall>c \<in> set columns. set (cells st c) \<subseteq> set (cells st' c) \<and>
          set (cells st' c) \<subseteq> set (cells st c) \<union> set (cells st shuffled)) \<and>
      (\<forall>i. index \<le> i \<and> i < index + m \<longrightarrow>
          (\<exists>c \<in> set columns. cells st shuffled ! i \<in> set (cells st' c)))"
proof (induction m arbitrary: index st)
  case 0
  then show ?case by auto
next
  case (Suc m)
  let ?xs = "cells st shuffled"
  let ?c0 = "columns ! (index mod n)"
  let ?st1 = "push ?c0 (element ?xs index) st"
  from n have c0: "?c0 \<in> set columns" by simp
  with sh have ne: "shuffled \<noteq> ?c0" by auto
  from Suc.prems have el: "element ?xs index = ?xs ! index" "?xs ! index \<in> set ?xs"
    by (simp_all add: element_nth)
  from ne have xs1: "cells ?st1 shuffled = ?xs" by (simp add: cells_push)
  with Suc.prems have "Suc index + m \<le> length (cells ?st1 shuffled)" by simp
  from Suc.IH [OF this] obtain st' where
    run: "distribute m (Suc index) shuffled columns n ?st1 = Inr st'"
    and nr: "next_ref st' = next_ref ?st1"
    and fr: "\<forall>r. r \<notin> set columns \<longrightarrow> cells st' r = cells ?st1 r"
    and sub: "\<forall>c \<in> set columns. set (cells ?st1 c) \<subseteq> set (cells st' c) \<and>
          set (cells st' c) \<subseteq> set (cells ?st1 c) \<union> set (cells ?st1 shuffled)"
    and cov: "\<forall>i. Suc index \<le> i \<and> i < Suc index + m \<longrightarrow>
          (\<exists>c \<in> set columns. cells ?st1 shuffled ! i \<in> set (cells st' c))"
    by blast
  from run n have r: "distribute (Suc m) index shuffled columns n st = Inr st'" by simp
  from nr have a: "next_ref st' = next_ref st" by (simp add: next_ref_push)
  have b: "\<forall>r. r \<notin> set columns \<longrightarrow> cells st' r = cells st r"
  proof (intro allI impI)
    fix r assume "r \<notin> set columns"
    with fr c0 show "cells st' r = cells st r" by (auto simp: cells_push)
  qed
  have c: "\<forall>c \<in> set columns. set (cells st c) \<subseteq> set (cells st' c) \<and>
          set (cells st' c) \<subseteq> set (cells st c) \<union> set ?xs"
  proof
    fix c assume cm: "c \<in> set columns"
    have one: "set (cells st c) \<subseteq> set (cells ?st1 c)" by (auto simp: cells_push)
    have two: "set (cells ?st1 c) \<subseteq> set (cells st c) \<union> set ?xs"
      using el by (auto simp: cells_push)
    from sub cm xs1 have "set (cells ?st1 c) \<subseteq> set (cells st' c)"
      "set (cells st' c) \<subseteq> set (cells ?st1 c) \<union> set ?xs" by auto
    with one two show "set (cells st c) \<subseteq> set (cells st' c) \<and>
          set (cells st' c) \<subseteq> set (cells st c) \<union> set ?xs" by blast
  qed
  have d: "\<forall>i. index \<le> i \<and> i < index + Suc m \<longrightarrow>
          (\<exists>c \<in> set columns. ?xs ! i \<in> set (cells st' c))"
  proof (intro allI impI)
    fix i assume i: "index \<le> i \<and> i < index + Suc m"
    show "\<exists>c \<in> set columns. ?xs ! i \<in> set (cells st' c)"
    proof (cases "i = index")
      case True
      have "?xs ! index \<in> set (cells ?st1 ?c0)" by (simp add: cells_push el)
      with sub c0 have "?xs ! index \<in> set (cells st' ?c0)" by blast
      with c0 True show ?thesis by blast
    next
      case False
      with i have "Suc index \<le> i \<and> i < Suc index + m" by simp
      with cov xs1 show ?thesis by simp
    qed
  qed
  from r a b c d show ?case by blast
qed

lemma pad_column_stop:
  "\<not> length (cells st col) < m \<Longrightarrow> pad_column rng k shuffled m col st = (k, st)"
  by (subst pad_column.simps) simp

lemma pad_column_step:
  "length (cells st col) < m \<Longrightarrow>
   pad_column rng k shuffled m col st =
     pad_column rng (Suc k) shuffled m col
       (push col (element (cells st shuffled) (pick rng k (length (cells st shuffled)))) st)"
  by (subst pad_column.simps) simp

lemma pad_column_result:
  "col \<noteq> shuffled \<Longrightarrow> cells st shuffled \<noteq> [] \<Longrightarrow>
   pad_column rng k shuffled m col st = (k', st') \<Longrightarrow>
    next_ref st' = next_ref st \<and> (\<forall>r. r \<noteq> col \<longrightarrow> cells st' r = cells st r) \<and>
    set (cells st col) \<subseteq> set (cells st' col) \<and>
    set (cells st' col) \<subseteq> set (cells st col) \<union> set (cells st shuffled) \<and>
    length (cells st' col) = max (length (cells st col)) m"
proof (induction rng k shuffled m col st rule: pad_column.induct)
  case (1 rng k shuffled m col st)
  show ?case
  proof (cases "length (cells st col) < m")
    case False
    with "1.prems"(3) have "st' = st" by (simp add: pad_column_stop)
    with False show ?thesis by simp
  next
    case True
    let ?xs = "cells st shuffled"
    let ?x = "element ?xs (pick rng k (length ?xs))"
    let ?st1 = "push col ?x st"
    from "1.prems"(2) have "pick rng k (length ?xs) < length ?xs"
      by (intro pick_less) simp
    then have x: "?x \<in> set ?xs" by (simp add: element_nth)
    from "1.prems"(1) have keep: "cells ?st1 shuffled = ?xs"
      by (simp add: cells_push)
    from True "1.prems"(3) have run: "pad_column rng (Suc k) shuffled m col ?st1 = (k', st')"
      by (simp add: pad_column_step)
    from keep "1.prems"(2) have "cells ?st1 shuffled \<noteq> []" by simp
    from "1.IH" [OF True "1.prems"(1) this run] have ih: "next_ref st' = next_ref ?st1"
      "\<forall>r. r \<noteq> col \<longrightarrow> cells st' r = cells ?st1 r"
      "set (cells ?st1 col) \<subseteq> set (cells st' col)"
      "set (cells st' col) \<subseteq> set (cells ?st1 col) \<union> set (cells ?st1 shuffled)"
      "length (cells st' col) = max (length (cells ?st1 col)) m"
      by simp_all
    from ih(1) have a: "next_ref st' = next_ref st" by (simp add: next_ref_push)
    from ih(2) have b: "\<forall>r. r \<noteq> col \<longrightarrow> cells st' r = cells st r" by (simp add: cells_push)
    from ih(3) have c: "set (cells st col) \<subseteq> set (cells st' col)" by (simp add: cells_push)
    from ih(4) keep x have d: "set (cells st' col) \<subseteq> set (cells st col) \<union> set ?xs"
      by (auto simp: cells_push)
    from ih(5) True have e: "length (cells st' col) = max (length (cells st col)) m"
      by (simp add: cells_push)
    from a b c d e show ?thesis by blast
  qed
qed

lemma pad_columns_result:
  "distinct cols \<Longrightarrow> shuffled \<notin> set cols \<Longrightarrow> cells st shuffled \<noteq> [] \<Longrightarrow>
   pad_columns rng k shuffled m cols st = (k', st') \<Longrightarrow>
    next_ref st' = next_ref st \<and> (\<forall>r. r \<notin> set cols \<longrightarrow> cells st' r = cells st r) \<and>
    (\<forall>c \<in> set cols. set (cells st c) \<subseteq> set (cells st' c) \<and>
        set (cells st' c) \<subseteq> set (cells st c) \<union> set (cells st shuffled) \<and>
        length (cells st' c) = max (length (cells st c)) m)"
proof (induction cols arbitrary: k st)
  case Nil
  then show ?case by simp
next
  case (Cons col cols)
  from Cons.prems(4) obtain k1 st1 where
    one: "pad_column rng k shuffled m col st = (k1, st1)"
    and rest: "pad_columns rng k1 shuffled m cols st1 = (k', st')"
    by (auto split: prod.splits)
  from Cons.prems(2) have ne: "col \<noteq> shuffled" by auto
  from pad_column_result [OF ne Cons.prems(3) one] have p: "next_ref st1 = next_ref st"
    "\<forall>r. r \<noteq> col \<longrightarrow> cells st1 r = cells st r"
    "set (cells st col) \<subseteq> set (cells st1 col)"
    "set (cells st1 col) \<subseteq> set (cells st col) \<union> set (cells st shuffled)"
    "length (cells st1 col) = max (length (cells st col)) m"
    by simp_all
  from p(2) ne have keep: "cells st1 shuffled = cells st shuffled" by simp
  from Cons.prems have d: "distinct cols" "shuffled \<notin> set cols" "col \<notin> set cols" by simp_all
  from keep Cons.prems(3) have "cells st1 shuffled \<noteq> []" by simp
  from Cons.IH [OF d(1) d(2) this rest] have ih: "next_ref st' = next_ref st1"
    "\<forall>r. r \<notin> set cols \<longrightarrow> cells st' r = cells st1 r"
    "\<forall>c \<in> set cols. set (cells st1 c) \<subseteq> set (cells st' c) \<and>
        set (cells st' c) \<subseteq> set (cells st1 c) \<union> set (cells st1 shuffled) \<and>
        length (cells st' c) = max (length (cells st1 c)) m"
    by simp_all
  from ih(1) p(1) have a: "next_ref st' = next_ref st" by simp
  from ih(2) p(2) have b: "\<forall>r. r \<notin> set (col # cols) \<longrightarrow> cells st' r = cells st r" by simp
  from ih(2) d(3) have same: "cells st' col = cells st1 col" by simp
  have c: "\<forall>c \<in> set (col # cols). set (cells st c) \<subseteq> set (cells st' c) \<and>
        set (cells st' c) \<subseteq> set (cells st c) \<union> set (cells st shuffled) \<and>
        length (cells st' c) = max (length (cells st c)) m"
  proof
    fix c assume "c \<in> set (col # cols)"
    then consider "c = col" | "c \<in> set cols" "c \<noteq> col" using d(3) by auto
    then show "set (cells st c) \<subseteq> set (cells st' c) \<and>
        set (cells st' c) \<subseteq> set (cells st c) \<union> set (cells st shuffled) \<and>
        length (cells st' c) = max (length (cells st c)) m"
    proof cases
      case 1
      with same p(3) p(4) p(5) show ?thesis by simp
    next
      case 2
      with p(2) have eq: "cells st1 c = cells st c" by simp
      from ih(3) 2(1) have "set (cells st1 c) \<subseteq> set (cells st' c) \<and>
        set (cells st' c) \<subseteq> set (cells st1 c) \<union> set (cells st1 shuffled) \<and>
        length (cells st' c) = max (length (cells st1 c)) m"
        by blast
      then show ?thesis by (simp only: eq keep)
    qed
  qed
  from a b c show ?case by blast
qed

lemma fold_max_upper: "x \<in> set xs \<Longrightarrow> x \<le> fold max xs (a :: nat)"
proof -
  assume "x \<in> set xs"
  then have "x \<le> Max (set (a # xs))" by simp
  then show ?thesis by (simp only: Max.set_eq_fold)
qed

lemma shuffle_loop_mset:
  "i < length (cells st shuffled) \<Longrightarrow> shuffle_loop rng i k shuffled st = (k', st') \<Longrightarrow>
   mset (cells st' shuffled) = mset (cells st shuffled)"
proof (induction i arbitrary: k st)
  case 0
  then show ?case by simp
next
  case (Suc i)
  let ?j = "pick rng k (Suc i + 1)"
  let ?xs = "cells st shuffled"
  let ?ys = "?xs[Suc i := element ?xs ?j, ?j := element ?xs (Suc i)]"
  let ?st = "st\<lparr>cells := (cells st)(shuffled := ?ys)\<rparr>"
  have j: "?j < Suc i + 1" by (rule pick_less) simp
  with Suc.prems(1) have jl: "?j < length ?xs" by simp
  from Suc.prems(1) jl have ys: "?ys = ?xs[Suc i := ?xs ! ?j, ?j := ?xs ! Suc i]"
    by (simp add: element_nth)
  from jl Suc.prems(1) have msy: "mset ?ys = mset ?xs"
    unfolding ys by (rule mset_swap)
  from Suc.prems(2) have run: "shuffle_loop rng i (Suc k) shuffled ?st = (k', st')"
    by (simp add: Let_def)
  from Suc.prems(1) have "i < length (cells ?st shuffled)" by simp
  from Suc.IH [OF this run] msy show ?case by simp
qed

lemma shuffleArray_mset:
  assumes "shuffleArray rng k array st = (shuffled, k', st')"
  shows "mset (cells st' shuffled) = mset (cells st array)"
proof -
  let ?st1 = "\<lparr>cells = (cells st)(next_ref st := cells st array),
               next_ref = Suc (next_ref st)\<rparr>"
  from assms have sh: "shuffled = next_ref st"
    by (simp add: shuffleArray_def alloc_def split: prod.splits)
  from assms have run:
    "shuffle_loop rng (length (cells st array) - 1) k (next_ref st) ?st1 = (k', st')"
    by (auto simp: shuffleArray_def alloc_def split: prod.splits)
  show ?thesis
  proof (cases "cells st array = []")
    case True
    with run have "st' = ?st1" by simp
    with sh True show ?thesis by simp
  next
    case False
    then have "length (cells st array) - 1 < length (cells ?st1 (next_ref st))" by simp
    from shuffle_loop_mset [OF this run] sh show ?thesis by simp
  qed
qed

lemma distribute_round_robin:
  assumes n: "0 < n" "length columns = n" and sh: "shuffled \<notin> set columns"
    and dist: "distinct columns"
  shows "index + m \<le> length (cells st shuffled) \<Longrightarrow>
    distribute m index shuffled columns n st = Inr st' \<Longrightarrow> j < n \<Longrightarrow>
    cells st' (columns ! j) =
      cells st (columns ! j)
        @ map ((!) (cells st shuffled)) (filter (\<lambda>i. i mod n = j) [index ..< index + m])"
proof (induction m arbitrary: index st)
  case 0
  then show ?case by simp
next
  case (Suc m)
  let ?xs = "cells st shuffled"
  let ?c0 = "columns ! (index mod n)"
  let ?st1 = "push ?c0 (element ?xs index) st"
  from n have c0: "?c0 \<in> set columns" by simp
  with sh have ne: "shuffled \<noteq> ?c0" by auto
  from ne have xs1: "cells ?st1 shuffled = ?xs" by (simp add: cells_push)
  from Suc.prems(1) have el: "element ?xs index = ?xs ! index"
    by (simp add: element_nth)
  from Suc.prems(2) n have run: "distribute m (Suc index) shuffled columns n ?st1 = Inr st'"
    by simp
  from Suc.prems(1) xs1 have "Suc index + m \<le> length (cells ?st1 shuffled)" by simp
  from Suc.IH [OF this run Suc.prems(3)] xs1 have ih:
    "cells st' (columns ! j) =
      cells ?st1 (columns ! j)
        @ map ((!) ?xs) (filter (\<lambda>i. i mod n = j) [Suc index ..< Suc index + m])"
    by simp
  from n have "index mod n < length columns" by simp
  with dist Suc.prems(3) n have same: "(columns ! j = ?c0) = (j = index mod n)"
    by (simp add: nth_eq_iff_index_eq)
  have upt: "[index ..< index + Suc m] = index # [Suc index ..< Suc index + m]"
    by (simp add: upt_rec)
  show ?case
  proof (cases "j = index mod n")
    case True
    with ih same el show ?thesis
      unfolding upt by (simp add: cells_push)
  next
    case False
    with ih same show ?thesis
      unfolding upt by (simp add: cells_push)
  qed
qed

lemma pad_column_prefix:
  "col \<noteq> shuffled \<Longrightarrow> cells st shuffled \<noteq> [] \<Longrightarrow>
   pad_column rng k shuffled m col st = (k', st') \<Longrightarrow>
   \<exists>pad. cells st' col = cells st col @ pad \<and> set pad \<subseteq> set (cells st shuffled)"
proof (induction rng k shuffled m col st rule: pad_column.induct)
  case (1 rng k shuffled m col st)
  show ?case
  proof (cases "length (cells st col) < m")
    case False
    with "1.prems"(3) have "st' = st" by (simp add: pad_column_stop)
    then show ?thesis by simp
  next
    case True
    let ?xs = "cells st shuffled"
    let ?x = "element ?xs (pick rng k (length ?xs))"
    let ?st1 = "push col ?x st"
    from "1.prems"(2) have "pick rng k (length ?xs) < length ?xs"
      by (intro pick_less) simp
    then have x: "?x \<in> set ?xs" by (simp add: element_nth)
    from "1.prems"(1) have keep: "cells ?st1 shuffled = ?xs"
      by (simp add: cells_push)
    from True "1.prems"(3) have run: "pad_column rng (Suc k) shuffled m col ?st1 = (k', st')"
      by (simp add: pad_column_step)
    from keep "1.prems"(2) have "cells ?st1 shuffled \<noteq> []" by simp
    from "1.IH" [OF True "1.prems"(1) this run] keep obtain pad where
      pad: "cells st' col = cells ?st1 col @ pad" "set pad \<subseteq> set ?xs"
      by auto
    from pad(1) have "cells st' col = cells st col @ (?x # pad)" by (simp add: cells_push)
    moreover from pad(2) x have "set (?x # pad) \<subseteq> set ?xs" by simp
    ultimately show ?thesis by blast
  qed
qed

lemma pad_columns_prefix:
  "distinct cols \<Longrightarrow> shuffled \<notin> set cols \<Longrightarrow> cells st shuffled \<noteq> [] \<Longrightarrow>
   pad_columns rng k shuffled m cols st = (k', st') \<Longrightarrow> c \<in> set cols \<Longrightarrow>
   \<exists>pad. cells st' c = cells st c @ pad \<and> set pad \<subseteq> set (cells st shuffled)"
proof (induction cols arbitrary: k st)
  case Nil
  then show ?case by simp
next
  case (Cons col cols)
  from Cons.prems(4) obtain k1 st1 where
    one: "pad_column rng k shuffled m col st = (k1, st1)"
    and rest: "pad_columns rng k1 shuffled m cols st1 = (k', st')"
    by (auto split: prod.splits)
  from Cons.prems(2) have ne: "col \<noteq> shuffled" by auto
  note p = pad_column_result [OF ne Cons.prems(3) one]
  note fr1 = p [THEN conjunct2, THEN conjunct1]
  from fr1 ne have keep: "cells st1 shuffled = cells st shuffled" by simp
  from Cons.prems have d: "distinct cols" "shuffled \<notin> set cols" "col \<notin> set cols" by simp_all
  from keep Cons.prems(3) have ne1: "cells st1 shuffled \<noteq> []" by simp
  note q = pad_columns_result [OF d(1) d(2) ne1 rest]
  note fr2 = q [THEN conjunct2, THEN conjunct1]
  show ?case
  proof (cases "c = col")
    case True
    from fr2 d(3) have "cells st' col = cells st1 col" by simp
    with pad_column_prefix [OF ne Cons.prems(3) one] True show ?thesis by simp
  next
    case False
    with Cons.prems(5) have cm: "c \<in> set cols" by simp
    from fr1 False have "cells st1 c = cells st c" by simp
    with Cons.IH [OF d(1) d(2) ne1 rest cm] keep show ?thesis by simp
  qed
qed

lemma distributeLogos_too_long:
  "2 ^ 32 \<le> columnCount \<Longrightarrow>
   distributeLogos max_arguments rng k allLogos columnCount st = Inl RangeError"
  by (simp add: distributeLogos_def alloc_columns_def split: prod.splits)

text \<open>
  Claim C10, as amended. For a non-empty array of logos and a column count of at least 1,
  below \<open>2^32\<close> and not above the number of arguments the engine accepts in one call,
  \<open>distributeLogos\<close> returns (and does not throw) exactly \<open>columnCount\<close> distinct
  columns, none of them the input array. All columns have the same length, every element
  of a column is an element of the input, and every element of the input is in some
  column: column \<open>j\<close> starts with the elements at the positions \<open>j, j + columnCount, ...\<close>
  of a permutation of the input, followed by padding drawn from the input. The input
  array is the same after the call.
\<close>

theorem distributeLogos_columns:
  assumes ref: "allLogos < next_ref st"
    and ne: "cells st allLogos \<noteq> []"
    and cc: "1 \<le> columnCount"
    and len32: "columnCount < 2 ^ 32"
    and spread: "columnCount \<le> max_arguments"
  shows "\<exists>columns k' st'.
      distributeLogos max_arguments rng k allLogos columnCount st = Inr (columns, k', st') \<and>
      length columns = columnCount \<and> distinct columns \<and> allLogos \<notin> set columns \<and>
      (\<forall>c \<in> set columns. \<forall>c' \<in> set columns.
          length (cells st' c) = length (cells st' c')) \<and>
      (\<forall>c \<in> set columns. set (cells st' c) \<subseteq> set (cells st allLogos)) \<and>
      (\<forall>x \<in> set (cells st allLogos). \<exists>c \<in> set columns. x \<in> set (cells st' c)) \<and>
      (\<exists>sh. mset sh = mset (cells st allLogos) \<and>
         (\<forall>j < columnCount. \<exists>pad.
            cells st' (columns ! j) =
              map ((!) sh) (filter (\<lambda>i. i mod columnCount = j) [0 ..< length sh]) @ pad \<and>
            set pad \<subseteq> set (cells st allLogos))) \<and>
      cells st' allLogos = cells st allLogos"
proof -
  obtain shuffled k1 st1 where sa: "shuffleArray rng k allLogos st = (shuffled, k1, st1)"
    by (cases "shuffleArray rng k allLogos st") auto
  note r1 = shuffleArray_result [OF ref sa]
  note s1 = r1 [THEN conjunct1] r1 [THEN conjunct2, THEN conjunct1]
    r1 [THEN conjunct2, THEN conjunct2, THEN conjunct1]
    r1 [THEN conjunct2, THEN conjunct2, THEN conjunct2, THEN conjunct1]
    r1 [THEN conjunct2, THEN conjunct2, THEN conjunct2, THEN conjunct2]
  obtain columns st2 where ac: "new_arrays columnCount st1 = (columns, st2)"
    by (cases "new_arrays columnCount st1") auto
  note r2 = new_arrays_result [OF ac]
  note s2 = r2 [THEN conjunct1] r2 [THEN conjunct2, THEN conjunct2, THEN conjunct1]
    r2 [THEN conjunct2, THEN conjunct2, THEN conjunct2]
  from s2(1) have len: "length columns = columnCount" and dist: "distinct columns"
    by simp_all
  from s2(1) s1(1) s1(2) have shc: "shuffled \<notin> set columns" by simp
  from s2(1) s1(2) ref have alc: "allLogos \<notin> set columns" by simp
  from ref s1(1) have als: "allLogos \<noteq> shuffled" by simp
  from s2(2) s1(1) s1(2) have sh2: "cells st2 shuffled = cells st1 shuffled" by simp
  from s2(2) s1(2) s1(3) ref als have al2: "cells st2 allLogos = cells st allLogos" by simp
  let ?xs = "cells st2 shuffled"
  from cc have pos: "0 < columnCount" by simp
  have "0 + length ?xs \<le> length ?xs" by simp
  from distribute_result [OF pos len shc this] obtain st3 where
    r3: "distribute (length ?xs) 0 shuffled columns columnCount st2 = Inr st3 \<and>
      next_ref st3 = next_ref st2 \<and>
      (\<forall>r. r \<notin> set columns \<longrightarrow> cells st3 r = cells st2 r) \<and>
      (\<forall>c \<in> set columns. set (cells st2 c) \<subseteq> set (cells st3 c) \<and>
          set (cells st3 c) \<subseteq> set (cells st2 c) \<union> set ?xs) \<and>
      (\<forall>i. 0 \<le> i \<and> i < 0 + length ?xs \<longrightarrow>
          (\<exists>c \<in> set columns. ?xs ! i \<in> set (cells st3 c)))" ..
  note d = r3 [THEN conjunct1]
  note fr3 = r3 [THEN conjunct2, THEN conjunct2, THEN conjunct1]
  note sub3 = r3 [THEN conjunct2, THEN conjunct2, THEN conjunct2, THEN conjunct1]
  note cov3 = r3 [THEN conjunct2, THEN conjunct2, THEN conjunct2, THEN conjunct2]
  let ?m = "fold max (map (\<lambda>col. length (cells st3 col)) columns) 0"
  obtain k2 st4 where pc: "pad_columns rng k1 shuffled ?m columns st3 = (k2, st4)"
    by (cases "pad_columns rng k1 shuffled ?m columns st3") auto
  from fr3 shc have sh3: "cells st3 shuffled = ?xs" by simp
  from fr3 alc al2 have al3: "cells st3 allLogos = cells st allLogos" by simp
  from sh2 s1(5) ne have "?xs \<noteq> []" by auto
  with sh3 have "cells st3 shuffled \<noteq> []" by simp
  note r4 = pad_columns_result [OF dist shc this pc]
  note fr4 = r4 [THEN conjunct2, THEN conjunct1]
  note sub4 = r4 [THEN conjunct2, THEN conjunct2]
  from len32 ac have ac': "alloc_columns columnCount st1 = Inr (columns, st2)"
    by (simp add: alloc_columns_def)
  from spread len have mm: "Math_max max_arguments
      (map (\<lambda>col. length (cells st3 col)) columns) = Inr ?m"
    by (simp add: Math_max_def)
  have run: "distributeLogos max_arguments rng k allLogos columnCount st
      = Inr (columns, k2, st4)"
    by (simp add: distributeLogos_def sa ac' d mm pc)
  have eqlen: "length (cells st4 c) = ?m" if "c \<in> set columns" for c
  proof -
    from that have "length (cells st3 c) \<in> set (map (\<lambda>col. length (cells st3 col)) columns)"
      by simp
    then have "length (cells st3 c) \<le> ?m" by (rule fold_max_upper)
    moreover from sub4 that have "set (cells st3 c) \<subseteq> set (cells st4 c) \<and>
        set (cells st4 c) \<subseteq> set (cells st3 c) \<union> set (cells st3 shuffled) \<and>
        length (cells st4 c) = max (length (cells st3 c)) ?m"
      by (rule bspec)
    ultimately show ?thesis by simp
  qed
  have xs_set: "set ?xs = set (cells st allLogos)"
    using sh2 s1(4) by simp
  have inside: "set (cells st4 c) \<subseteq> set (cells st allLogos)" if "c \<in> set columns" for c
  proof -
    from s2(3) that have e: "cells st2 c = []" by (rule bspec)
    from sub3 that have "set (cells st2 c) \<subseteq> set (cells st3 c) \<and>
          set (cells st3 c) \<subseteq> set (cells st2 c) \<union> set ?xs"
      by (rule bspec)
    with e have "set (cells st3 c) \<subseteq> set ?xs" by simp
    moreover from sub4 that have "set (cells st3 c) \<subseteq> set (cells st4 c) \<and>
        set (cells st4 c) \<subseteq> set (cells st3 c) \<union> set (cells st3 shuffled) \<and>
        length (cells st4 c) = max (length (cells st3 c)) ?m"
      by (rule bspec)
    ultimately show ?thesis using sh3 xs_set by auto
  qed
  have covered: "\<exists>c \<in> set columns. x \<in> set (cells st4 c)" if "x \<in> set (cells st allLogos)" for x
  proof -
    from that xs_set have "x \<in> set ?xs" by simp
    then obtain i where i: "i < length ?xs" "?xs ! i = x"
      by (auto simp: in_set_conv_nth)
    from cov3 i(1) have "\<exists>c \<in> set columns. ?xs ! i \<in> set (cells st3 c)" by simp
    with i(2) obtain c where c: "c \<in> set columns" "x \<in> set (cells st3 c)" by auto
    from sub4 c(1) have "set (cells st3 c) \<subseteq> set (cells st4 c) \<and>
        set (cells st4 c) \<subseteq> set (cells st3 c) \<union> set (cells st3 shuffled) \<and>
        length (cells st4 c) = max (length (cells st3 c)) ?m"
      by (rule bspec)
    with c(2) have "x \<in> set (cells st4 c)" by auto
    with c(1) show ?thesis by blast
  qed
  from fr4 alc al3 have keep: "cells st4 allLogos = cells st allLogos" by simp
  from shuffleArray_mset [OF sa] sh2 have perm: "mset ?xs = mset (cells st allLogos)"
    by simp
  have robin: "\<exists>pad. cells st4 (columns ! j) =
              map ((!) ?xs) (filter (\<lambda>i. i mod columnCount = j) [0 ..< length ?xs]) @ pad \<and>
            set pad \<subseteq> set (cells st allLogos)" if "j < columnCount" for j
  proof -
    from that len have cm: "columns ! j \<in> set columns" by simp
    with s2(3) have e: "cells st2 (columns ! j) = []" by (rule bspec)
    have "0 + length ?xs \<le> length ?xs" by simp
    from distribute_round_robin [OF pos len shc dist this d that] e
    have three: "cells st3 (columns ! j) =
        map ((!) ?xs) (filter (\<lambda>i. i mod columnCount = j) [0 ..< length ?xs])"
      by simp
    from pad_columns_prefix [OF dist shc \<open>cells st3 shuffled \<noteq> []\<close> pc cm]
    obtain pad where "cells st4 (columns ! j) = cells st3 (columns ! j) @ pad"
      "set pad \<subseteq> set (cells st3 shuffled)"
      by blast
    with three sh3 xs_set show ?thesis by simp
  qed
  from perm robin have shuffled: "\<exists>sh. mset sh = mset (cells st allLogos) \<and>
         (\<forall>j < columnCount. \<exists>pad.
            cells st4 (columns ! j) =
              map ((!) sh) (filter (\<lambda>i. i mod columnCount = j) [0 ..< length sh]) @ pad \<and>
            set pad \<subseteq> set (cells st allLogos))"
    by (intro exI [of _ ?xs]) simp
  from run len dist alc eqlen inside covered shuffled keep show ?thesis
    by (intro exI [of _ columns] exI [of _ k2] exI [of _ st4]) simp
qed

lemma length_new_arrays: "new_arrays n st = (columns, st') \<Longrightarrow> length columns = n"
  using new_arrays_result [of n st columns st', THEN conjunct1] by simp

lemma distributeLogos_in_range:
  assumes "columnCount < 2 ^ 32" and "columnCount \<le> max_arguments"
  shows "distributeLogos max_arguments rng k allLogos columnCount st =
     (case shuffleArray rng k allLogos st of
        (shuffled, k1, st1) \<Rightarrow>
          (case new_arrays columnCount st1 of
             (columns, st2) \<Rightarrow>
               (case distribute (length (cells st2 shuffled)) 0 shuffled columns columnCount st2 of
                  Inl err \<Rightarrow> Inl err
                | Inr st3 \<Rightarrow>
                    (case pad_columns rng k1 shuffled
                            (fold max (map (\<lambda>col. length (cells st3 col)) columns) 0)
                            columns st3 of
                       (k2, st4) \<Rightarrow> Inr (columns, k2, st4)))))"
proof -
  obtain shuffled k1 st1 where sa: "shuffleArray rng k allLogos st = (shuffled, k1, st1)"
    by (cases "shuffleArray rng k allLogos st") auto
  obtain columns st2 where na: "new_arrays columnCount st1 = (columns, st2)"
    by (cases "new_arrays columnCount st1") auto
  from na have len: "length columns = columnCount"
    by (rule length_new_arrays)
  from assms(1) na have ac: "alloc_columns columnCount st1 = Inr (columns, st2)"
    by (simp add: alloc_columns_def)
  from assms(2) len have mm: "Math_max max_arguments (map f columns) = Inr (fold max (map f columns) 0)"
    for f :: "nat \<Rightarrow> nat"
    by (simp add: Math_max_def)
  show ?thesis
    by (simp add: distributeLogos_def sa na ac mm split: sum.splits)
qed

lemma demo_columns:
  "columns_of (distributeLogos 65535 demo_rng 0 0 2 demo_store)
     = [[Some ''a'', Some ''e'', Some ''b''], [Some ''c'', Some ''d'', Some ''c'']]"
proof -
  have a: "(2 :: nat) < 2 ^ 32" and b: "(2 :: nat) \<le> 65535" by simp_all
  note eq = distributeLogos_in_range [OF a b, of demo_rng 0 0 demo_store]
  show ?thesis unfolding eq by code_simp
qed

theorem distributeLogos_columns_witness:
  "0 < next_ref demo_store \<and>
   cells demo_store 0 = [Some ''a'', Some ''b'', Some ''c'', Some ''d'', Some ''e''] \<and>
   (1 :: nat) \<le> 2 \<and> (2 :: nat) < 2 ^ 32 \<and> (2 :: nat) \<le> 65535 \<and>
   (\<exists>columns k' st'.
      distributeLogos 65535 demo_rng 0 0 2 demo_store = Inr (columns, k', st') \<and>
      length columns = 2 \<and> distinct columns \<and>
      cells st' 0 = [Some ''a'', Some ''b'', Some ''c'', Some ''d'', Some ''e'']) \<and>
   columns_of (distributeLogos 65535 demo_rng 0 0 2 demo_store)
     = [[Some ''a'', Some ''e'', Some ''b''], [Some ''c'', Some ''d'', Some ''c'']]"
proof -
  have a: "0 < next_ref demo_store" by (simp add: demo_store_def)
  have b: "cells demo_store 0 = [Some ''a'', Some ''b'', Some ''c'', Some ''d'', Some ''e'']"
    by (simp add: demo_store_def)
  then have c: "cells demo_store 0 \<noteq> []" by simp
  have d: "(1 :: nat) \<le> 2" by simp
  have e: "(2 :: nat) < 2 ^ 32" by simp
  have f: "(2 :: nat) \<le> 65535" by simp
  from distributeLogos_columns [OF a c d e f, of demo_rng 0] b
  have "\<exists>columns k' st'.
      distributeLogos 65535 demo_rng 0 0 2 demo_store = Inr (columns, k', st') \<and>
      length columns = 2 \<and> distinct columns \<and>
      cells st' 0 = [Some ''a'', Some ''b'', Some ''c'', Some ''d'', Some ''e'']"
    by (elim exE conjE) (intro exI conjI, assumption+, simp)
  with a b e demo_columns show ?thesis by simp
qed

theorem distributeLogos_columns_counterexample:
  "0 < next_ref demo_store \<and>
   cells demo_store 0 = [Some ''a'', Some ''b'', Some ''c'', Some ''d'', Some ''e''] \<and>
   (1 :: nat) \<le> 4294967296 \<and>
   distributeLogos 4294967296 demo_rng 0 0 4294967296 demo_store = Inl RangeError"
proof -
  have a: "0 < next_ref demo_store" by (simp add: demo_store_def)
  have b: "cells demo_store 0 = [Some ''a'', Some ''b'', Some ''c'', Some ''d'', Some ''e'']"
    by (simp add: demo_store_def)
  have "(2 :: nat) ^ 32 \<le> 4294967296" by simp
  then have "distributeLogos 4294967296 demo_rng 0 0 4294967296 demo_store = Inl RangeError"
    by (rule distributeLogos_too_long)
  with a b show ?thesis by simp
qed

end
